(* ===== verification/Go_Base.thy ===== *)
theory Go_Base
  imports Main "HOL-Library.Char_ord" "HOL-Library.Sublist"
begin

text \<open>
  Shared vocabulary of the development.  A Go \<open>string\<close> or \<open>[]byte\<close> is a HOL
  \<open>string\<close>: a list of 8-bit characters, so \<open>length\<close> is Go's \<open>len\<close> and an index is a
  byte index.  A call that returns \<open>(value, error)\<close> returns a sum: \<open>Inl\<close> the error,
  \<open>Inr\<close> the value.  Everything here is generic: byte classes, facts on
  \<open>takeWhile\<close> and \<open>dropWhile\<close>, and the removal of all occurrences of a separator
  (\<open>bytes.ReplaceAll\<close> with an empty replacement).
\<close>

named_theorems byte_defs \<open>definitions of the byte classes\<close>

type_synonym bytes = string

subsection \<open>Byte classes\<close>

abbreviation NL :: char where "NL \<equiv> CHR 0x0A"
abbreviation CR :: char where "CR \<equiv> CHR 0x0D"
abbreviation DQUOTE :: char where "DQUOTE \<equiv> CHR 0x22"

definition is_digit :: "char \<Rightarrow> bool" where
  "is_digit c \<longleftrightarrow> CHR ''0'' \<le> c \<and> c \<le> CHR ''9''"

definition is_lower_alpha :: "char \<Rightarrow> bool" where
  "is_lower_alpha c \<longleftrightarrow> CHR ''a'' \<le> c \<and> c \<le> CHR ''z''"

definition is_upper_alpha :: "char \<Rightarrow> bool" where
  "is_upper_alpha c \<longleftrightarrow> CHR ''A'' \<le> c \<and> c \<le> CHR ''Z''"

text \<open>\<open>unicode.IsSpace(rune(ch))\<close> for a single byte: the Latin-1 white space.\<close>

definition is_space_byte :: "char \<Rightarrow> bool" where
  "is_space_byte c \<longleftrightarrow>
     c = CHR 0x09 \<or> c = CHR 0x0A \<or> c = CHR 0x0B \<or> c = CHR 0x0C \<or> c = CHR 0x0D \<or>
     c = CHR 0x20 \<or> c = CHR 0x85 \<or> c = CHR 0xA0"

lemmas [byte_defs] = is_digit_def is_lower_alpha_def is_upper_alpha_def is_space_byte_def

definition byte_val :: "char \<Rightarrow> int" where
  "byte_val c = of_char c"

lemma byte_val_bounds: "0 \<le> byte_val c \<and> byte_val c < 256"
  unfolding byte_val_def using of_char_mod_256 [of c, where ?'a = int]
  by (metis pos_mod_bound pos_mod_sign zero_less_numeral)

definition digit_val :: "char \<Rightarrow> int" where
  "digit_val c = byte_val c - 48"

definition lower_byte :: "char \<Rightarrow> char" where
  "lower_byte c = (if is_upper_alpha c then char_of (byte_val c + 32) else c)"

definition upper_byte :: "char \<Rightarrow> char" where
  "upper_byte c = (if is_lower_alpha c then char_of (byte_val c - 32) else c)"

subsection \<open>Sums as results\<close>

definition is_ok :: "'e + 'a \<Rightarrow> bool" where
  "is_ok r \<longleftrightarrow> (case r of Inl _ \<Rightarrow> False | Inr _ \<Rightarrow> True)"

lemma is_ok_simps [simp]: "is_ok (Inr x)" "\<not> is_ok (Inl e)"
  by (simp_all add: is_ok_def)

lemma is_ok_iff: "is_ok r \<longleftrightarrow> (\<exists>x. r = Inr x)"
  by (cases r) simp_all

subsection \<open>Lists\<close>

lemma length_dropWhile_Suc: "length (dropWhile P xs) < Suc (length xs)"
  by (simp add: le_imp_less_Suc length_dropWhile_le)

lemma takeWhile_append_stop:
  "\<forall>x \<in> set xs. P x \<Longrightarrow> \<not> P y \<Longrightarrow> takeWhile P (xs @ y # ys) = xs"
  by (induction xs) auto

lemma dropWhile_append_stop:
  "\<forall>x \<in> set xs. P x \<Longrightarrow> \<not> P y \<Longrightarrow> dropWhile P (xs @ y # ys) = y # ys"
  by (induction xs) auto

lemma count_list_dropWhile_le: "count_list (dropWhile P xs) x \<le> count_list xs x"
  by (induction xs) auto

lemma count_list_suffix: "suffix ys xs \<Longrightarrow> count_list ys x \<le> count_list xs x"
  by (auto simp: suffix_def)

lemma suffix_ConsI2: "suffix ys xs \<Longrightarrow> suffix ys (x # xs)"
  by (auto simp: suffix_def intro: exI [of _ "x # _"])

lemma suffix_dropD: "suffix ys (drop n xs) \<Longrightarrow> suffix ys xs"
  by (meson suffix_drop suffix_order.trans)

lemma suffix_length_less: "suffix ys xs \<Longrightarrow> length ys \<le> length xs"
  by (auto simp: suffix_def)

subsection \<open>Prefixes and replacement\<close>

text \<open>\<open>strings.HasPrefix\<close> / \<open>bytes.HasPrefix\<close>.\<close>

definition has_prefix :: "'a list \<Rightarrow> 'a list \<Rightarrow> bool" where
  "has_prefix s p \<longleftrightarrow> take (length p) s = p"

lemma has_prefix_iff: "has_prefix s p \<longleftrightarrow> (\<exists>t. s = p @ t)"
proof
  assume "has_prefix s p"
  then have "s = p @ drop (length p) s"
    by (metis append_take_drop_id has_prefix_def)
  then show "\<exists>t. s = p @ t" ..
qed (auto simp: has_prefix_def)

lemma has_prefix_Nil [simp]: "has_prefix s []"
  by (simp add: has_prefix_def)

text \<open>
  \<open>bytes.ReplaceAll(s, old, nil)\<close> with a non-empty \<open>old\<close>: the non-overlapping
  occurrences, found from the left, are dropped.
\<close>

function remove_all :: "'a list \<Rightarrow> 'a list \<Rightarrow> 'a list" where
  "remove_all p [] = []"
| "remove_all p (c # cs) =
     (if p \<noteq> [] \<and> has_prefix (c # cs) p then remove_all p (drop (length p) (c # cs))
      else c # remove_all p cs)"
  by pat_completeness auto
termination by (relation "measure (\<lambda>(p, s). length s)") auto

lemma remove_all_single: "remove_all [c] s = filter (\<lambda>x. x \<noteq> c) s"
  by (induction s) (auto simp: has_prefix_def)

lemma length_remove_all: "length (remove_all p s) \<le> length s"
proof (induction p s rule: remove_all.induct)
  case (2 p c cs)
  show ?case
  proof (cases "p \<noteq> [] \<and> has_prefix (c # cs) p")
    case True
    with 2 have "length (remove_all p (drop (length p) (c # cs))) \<le> length (drop (length p) (c # cs))"
      by blast
    with True show ?thesis by simp
  next
    case False
    with 2 have "length (remove_all p cs) \<le> length cs" by blast
    with False show ?thesis by (auto simp del: drop_eq_Nil)
  qed
qed simp

lemma remove_all_no_head:
  assumes "h \<notin> set s"
  shows "remove_all (h # p) s = s"
  using assms by (induction s) (auto simp: has_prefix_def)

text \<open>
  A fragment \<open>f\<close> survives the removal of \<open>h # p\<close> when no occurrence can overlap it:
  its first byte is not in \<open>p\<close> and \<open>h\<close> is not in \<open>f\<close>.
\<close>

lemma has_prefix_overlap:
  assumes "has_prefix (a @ f @ b) q" and "f \<noteq> []" and "hd f \<notin> set q"
  shows "length q \<le> length a"
proof (rule ccontr)
  assume "\<not> length q \<le> length a"
  then have len: "length a < length q" by simp
  from assms(1) obtain t where "a @ f @ b = q @ t" by (auto simp: has_prefix_iff)
  then have "(a @ f @ b) ! length a = q ! length a" using len by (simp add: nth_append)
  moreover have "(a @ f @ b) ! length a = hd f"
    using assms(2) by (cases f) (simp_all add: nth_append)
  ultimately have "hd f \<in> set q" using len by (metis nth_mem)
  with assms(3) show False by simp
qed

lemma remove_all_keeps:
  assumes "f \<noteq> []" and "hd f \<notin> set (h # p)" and "h \<notin> set f"
  shows "remove_all (h # p) (a @ f @ b) = remove_all (h # p) a @ f @ remove_all (h # p) b"
proof (induction "h # p" a rule: remove_all.induct)
  case 1
  from assms(3) have "remove_all (h # p) (f @ b) = f @ remove_all (h # p) b"
    by (induction f) (auto simp: has_prefix_def)
  then show ?case by simp
next
  case (2 c cs)
  show ?case
  proof (cases "has_prefix (c # cs) (h # p)")
    case True
    then have "length (h # p) \<le> length (c # cs)"
      by (metis has_prefix_def length_take linorder_linear min.absorb1 take_all)
    then have "drop (length (h # p)) ((c # cs) @ f @ b) = drop (length (h # p)) (c # cs) @ f @ b"
      by simp
    moreover from True have "has_prefix ((c # cs) @ f @ b) (h # p)"
      by (auto simp: has_prefix_iff)
    ultimately show ?thesis using 2(1) True by simp
  next
    case False
    have "\<not> has_prefix ((c # cs) @ f @ b) (h # p)"
    proof
      assume pre: "has_prefix ((c # cs) @ f @ b) (h # p)"
      with assms have "length (h # p) \<le> length (c # cs)" by (blast intro: has_prefix_overlap)
      with pre have "has_prefix (c # cs) (h # p)" by (simp add: has_prefix_def)
      with False show False ..
    qed
    with False 2(2) show ?thesis by simp
  qed
qed

text \<open>A byte outside the removed text splits the replacement.\<close>

lemma remove_all_split:
  "x \<notin> set p \<Longrightarrow> remove_all p (a @ x # b) = remove_all p a @ x # remove_all p b"
proof (cases p)
  case Nil
  have id: "remove_all [] s = s" for s :: "'a list" by (induction s) simp_all
  with Nil show ?thesis by simp
next
  case (Cons h q)
  moreover assume "x \<notin> set p"
  ultimately show ?thesis using remove_all_keeps [of "[x]" h q a b] by auto
qed

end
