(* ===== verification/Dsl_Lexer.thy ===== *)
theory Dsl_Lexer
  imports Go_Base
begin

text \<open>
  The lexer of the policy language, \<open>internal/policy/dsl/lexer.go\<close>.  The scanner state of
  the source (\<open>src\<close>, \<open>pos\<close>, \<open>line\<close>) is the unread rest \<open>src[pos:]\<close> together with the
  line counter: advancing \<open>pos\<close> is dropping bytes of the rest.  \<open>next_token\<close> is one round
  of the \<open>switch\<close> in \<open>run\<close>; \<open>lex_run\<close> is the loop around it.  The lemmas show that the
  loop always ends, that the result has exactly one EOF token, at the end, with line
  numbers that never decrease, and that the text of a token list lexes back to it.
\<close>

subsection \<open>Tokens\<close>

datatype token_type =
    TPOLICY | TRULE | TWHEN | TACTION | TREASON | TAND | TOR | TNOT_IN
  | TIDENT | TSTRING | TNUMBER
  | TGT | TLT | TEQ
  | TLBRACE | TRBRACE | TLBRACKET | TRBRACKET | TCOMMA | TCOLON
  | TEOF

fun token_type_String :: "token_type \<Rightarrow> string" where
  "token_type_String TPOLICY = ''POLICY''"
| "token_type_String TRULE = ''RULE''"
| "token_type_String TWHEN = ''WHEN''"
| "token_type_String TACTION = ''ACTION''"
| "token_type_String TREASON = ''REASON''"
| "token_type_String TAND = ''AND''"
| "token_type_String TOR = ''OR''"
| "token_type_String TNOT_IN = ''NOT_IN''"
| "token_type_String TIDENT = ''IDENT''"
| "token_type_String TSTRING = ''STRING''"
| "token_type_String TNUMBER = ''NUMBER''"
| "token_type_String TGT = ''>''"
| "token_type_String TLT = ''<''"
| "token_type_String TEQ = ''==''"
| "token_type_String TLBRACE = ''{''"
| "token_type_String TRBRACE = ''}''"
| "token_type_String TLBRACKET = ''[''"
| "token_type_String TRBRACKET = '']''"
| "token_type_String TCOMMA = '',''"
| "token_type_String TCOLON = '':''"
| "token_type_String TEOF = ''EOF''"

record token =
  tok_type :: token_type
  tok_literal :: string
  tok_line :: nat

definition mk_token :: "token_type \<Rightarrow> string \<Rightarrow> nat \<Rightarrow> token" where
  "mk_token t l n = \<lparr>tok_type = t, tok_literal = l, tok_line = n\<rparr>"

lemma mk_token_sel [simp]:
  "tok_type (mk_token t l n) = t" "tok_literal (mk_token t l n) = l" "tok_line (mk_token t l n) = n"
  by (simp_all add: mk_token_def)

lemma mk_token_inject [simp]:
  "mk_token t l n = mk_token t' l' n' \<longleftrightarrow> t = t' \<and> l = l' \<and> n = n'"
  by (auto simp: mk_token_def)

definition keyword :: "string \<Rightarrow> token_type option" where
  "keyword w =
     map_of
       [(''policy'', TPOLICY), (''rule'', TRULE), (''when'', TWHEN), (''action'', TACTION),
        (''reason'', TREASON), (''AND'', TAND), (''OR'', TOR), (''NOT_IN'', TNOT_IN),
        (''BLOCK'', TIDENT), (''TAG'', TIDENT), (''LOG'', TIDENT), (''REDACT'', TIDENT)] w"

subsection \<open>Character classes\<close>

definition is_ident_start :: "char \<Rightarrow> bool" where
  "is_ident_start ch \<longleftrightarrow> ch = CHR ''_'' \<or> is_lower_alpha ch \<or> is_upper_alpha ch"

definition is_ident_continue :: "char \<Rightarrow> bool" where
  "is_ident_continue ch \<longleftrightarrow> is_ident_start ch \<or> is_digit ch \<or> ch = CHR ''.'' \<or> ch = CHR ''-''"

definition is_number_char :: "char \<Rightarrow> bool" where
  "is_number_char ch \<longleftrightarrow> is_digit ch \<or> ch = CHR ''.''"

lemmas [byte_defs] = is_ident_start_def is_ident_continue_def is_number_char_def

subsection \<open>The scanning functions\<close>

datatype lex_error =
    UnexpectedChar nat char
  | UnterminatedString nat
  | UnterminatedStringEOF nat

fun lex_error_line :: "lex_error \<Rightarrow> nat" where
  "lex_error_line (UnexpectedChar n _) = n"
| "lex_error_line (UnterminatedString n) = n"
| "lex_error_line (UnterminatedStringEOF n) = n"

function skip_whitespace_and_comments :: "string \<Rightarrow> nat \<Rightarrow> string \<times> nat" where
  "skip_whitespace_and_comments [] n = ([], n)"
| "skip_whitespace_and_comments (ch # cs) n =
     (if ch = NL then skip_whitespace_and_comments cs (n + 1)
      else if is_space_byte ch then skip_whitespace_and_comments cs n
      else if ch = CHR ''#'' then skip_whitespace_and_comments (dropWhile (\<lambda>c. c \<noteq> NL) (ch # cs)) n
      else (ch # cs, n))"
  by pat_completeness auto
termination
  by (relation "measure (\<lambda>(s, n). length s)") (auto simp: length_dropWhile_Suc)

text \<open>\<open>peek(offset)\<close>, the zero byte past the end.\<close>

definition peek_byte :: "string \<Rightarrow> nat \<Rightarrow> char" where
  "peek_byte s offset = (if offset < length s then s ! offset else CHR 0x00)"

text \<open>\<open>readString\<close>, after the opening quote.\<close>

fun read_string :: "string \<Rightarrow> nat \<Rightarrow> lex_error + string \<times> string" where
  "read_string [] n = Inl (UnterminatedStringEOF n)"
| "read_string (ch # cs) n =
     (if ch = DQUOTE then Inr ([], cs)
      else if ch = NL then Inl (UnterminatedString n)
      else case read_string cs n of
             Inl e \<Rightarrow> Inl e
           | Inr (s, rest) \<Rightarrow> Inr (ch # s, rest))"

definition read_number :: "string \<Rightarrow> string \<times> string" where
  "read_number s =
     (let sign = (if peek_byte s 0 = CHR ''-'' then take 1 s else []);
          r = drop (length sign) s
      in (sign @ takeWhile is_number_char r, dropWhile is_number_char r))"

definition read_ident :: "string \<Rightarrow> string \<times> string" where
  "read_ident s = (takeWhile is_ident_continue s, dropWhile is_ident_continue s)"

text \<open>One round of the \<open>switch\<close> at a byte \<open>ch\<close> that is not white space, with rest \<open>ch # cs\<close>.\<close>

definition next_token :: "char \<Rightarrow> string \<Rightarrow> nat \<Rightarrow> lex_error + token \<times> string" where
  "next_token ch cs n =
     (if ch = DQUOTE then
        (case read_string cs n of
           Inl e \<Rightarrow> Inl e
         | Inr (s, rest) \<Rightarrow> Inr (mk_token TSTRING s n, rest))
      else if ch = CHR ''>'' then Inr (mk_token TGT ''>'' n, cs)
      else if ch = CHR ''<'' then Inr (mk_token TLT ''<'' n, cs)
      else if ch = CHR ''='' \<and> peek_byte (ch # cs) 1 = CHR ''='' then Inr (mk_token TEQ ''=='' n, drop 1 cs)
      else if ch = CHR ''{'' then Inr (mk_token TLBRACE ''{'' n, cs)
      else if ch = CHR ''}'' then Inr (mk_token TRBRACE ''}'' n, cs)
      else if ch = CHR ''['' then Inr (mk_token TLBRACKET ''['' n, cs)
      else if ch = CHR '']'' then Inr (mk_token TRBRACKET '']'' n, cs)
      else if ch = CHR '','' then Inr (mk_token TCOMMA '','' n, cs)
      else if ch = CHR '':'' then Inr (mk_token TCOLON '':'' n, cs)
      else if is_digit ch \<or> ch = CHR ''-'' \<and> cs \<noteq> [] \<and> is_digit (hd cs) then
        (let (num, rest) = read_number (ch # cs) in Inr (mk_token TNUMBER num n, rest))
      else if is_ident_start ch then
        (let (word, rest) = read_ident (ch # cs);
             tt = (case keyword word of Some t \<Rightarrow> t | None \<Rightarrow> TIDENT)
         in Inr (mk_token tt word n, rest))
      else Inl (UnexpectedChar n ch))"

subsection \<open>Progress of the scanning functions\<close>

lemma skip_ws_suffix: "skip_whitespace_and_comments s n = (r, m) \<Longrightarrow> suffix r s"
proof (induction s n rule: skip_whitespace_and_comments.induct)
  case (2 ch cs n)
  have "suffix (dropWhile (\<lambda>c. c \<noteq> NL) cs) cs" by (rule suffix_dropWhile)
  with 2 show ?case
    by (auto split: if_splits intro: suffix_ConsI2 suffix_order.trans)
qed simp

lemma skip_ws_length: "skip_whitespace_and_comments s n = (r, m) \<Longrightarrow> length r \<le> length s"
  using skip_ws_suffix suffix_length_less by blast

lemma read_string_suffix: "read_string s n = Inr (str, rest) \<Longrightarrow> suffix rest s"
  by (induction s arbitrary: str rest)
    (auto split: if_splits sum.splits intro: suffix_ConsI2)

lemma read_number_suffix: "read_number s = (w, rest) \<Longrightarrow> suffix rest s"
  by (auto simp: read_number_def Let_def
      intro: suffix_order.trans [OF suffix_dropWhile suffix_drop] suffix_dropWhile)

lemma read_number_Cons_suffix:
  assumes "read_number (ch # cs) = (w, r)" and "is_digit ch \<or> ch = CHR ''-''"
  shows "suffix r cs"
proof (cases "ch = CHR ''-''")
  case True
  with assms(1) show ?thesis by (auto simp: read_number_def peek_byte_def suffix_dropWhile)
next
  case False
  with assms(2) have "is_number_char ch" by (simp add: is_number_char_def)
  with assms(1) False show ?thesis
    by (auto simp: read_number_def peek_byte_def Let_def suffix_dropWhile)
qed

lemma read_ident_Cons_suffix:
  "read_ident (ch # cs) = (w, r) \<Longrightarrow> is_ident_start ch \<Longrightarrow> suffix r cs"
  by (auto simp: read_ident_def is_ident_continue_def suffix_dropWhile)

text \<open>The five ways the \<open>switch\<close> can produce a token, and the two ways it can fail.\<close>

lemma next_token_split:
  assumes "next_token ch cs n = Inr (t, rest)"
  shows "ch = DQUOTE \<and> (\<exists>w. t = mk_token TSTRING w n \<and> read_string cs n = Inr (w, rest)) \<or>
    rest = cs \<and> (\<exists>ty. t = mk_token ty [ch] n \<and>
      ty \<in> {TGT, TLT, TLBRACE, TRBRACE, TLBRACKET, TRBRACKET, TCOMMA, TCOLON}) \<or>
    ch = CHR ''='' \<and> t = mk_token TEQ ''=='' n \<and> cs = CHR ''='' # rest \<or>
    (is_digit ch \<or> ch = CHR ''-'') \<and> (\<exists>w. t = mk_token TNUMBER w n \<and> read_number (ch # cs) = (w, rest)) \<or>
    is_ident_start ch \<and> (\<exists>w. read_ident (ch # cs) = (w, rest) \<and>
      t = mk_token (case keyword w of Some t \<Rightarrow> t | None \<Rightarrow> TIDENT) w n)"
proof -
  obtain w r where num: "read_number (ch # cs) = (w, r)" by fastforce
  obtain w' r' where word: "read_ident (ch # cs) = (w', r')" by fastforce
  have eq: "peek_byte (c # cs) (Suc 0) = CHR ''='' \<longleftrightarrow> (\<exists>r. cs = CHR ''='' # r)" for c
    by (cases cs) (auto simp: peek_byte_def)
  show ?thesis
    using assms unfolding next_token_def num word Let_def prod.case
    by (simp add: eq split: if_split_asm sum.split_asm prod.split_asm) auto
qed

lemma next_token_cases:
  assumes "next_token ch cs n = Inr (t, rest)"
  obtains (string) w where "ch = DQUOTE" "t = mk_token TSTRING w n" "read_string cs n = Inr (w, rest)"
  | (punct) ty where "t = mk_token ty [ch] n" "rest = cs"
      "ty \<in> {TGT, TLT, TLBRACE, TRBRACE, TLBRACKET, TRBRACKET, TCOMMA, TCOLON}"
  | (eq) "ch = CHR ''=''" "t = mk_token TEQ ''=='' n" "cs = CHR ''='' # rest"
  | (number) w where "is_digit ch \<or> ch = CHR ''-''" "t = mk_token TNUMBER w n"
      "read_number (ch # cs) = (w, rest)"
  | (ident) w where "is_ident_start ch" "read_ident (ch # cs) = (w, rest)"
      "t = mk_token (case keyword w of Some t \<Rightarrow> t | None \<Rightarrow> TIDENT) w n"
  by (insert next_token_split [OF assms]) (elim disjE; elim conjE exE; rule that; assumption)

lemma next_token_error:
  assumes "next_token ch cs n = Inl e"
  shows "read_string cs n = Inl e \<or> e = UnexpectedChar n ch"
proof -
  obtain w r where num: "read_number (ch # cs) = (w, r)" by fastforce
  obtain w' r' where word: "read_ident (ch # cs) = (w', r')" by fastforce
  show ?thesis
    using assms unfolding next_token_def num word Let_def prod.case
    by (simp split: if_split_asm sum.split_asm prod.split_asm)
qed

lemma next_token_suffix:
  assumes "next_token ch cs n = Inr (t, rest)"
  shows "suffix rest cs"
  using assms
  by (cases rule: next_token_cases)
    (auto intro: suffix_ConsI2 read_string_suffix read_number_Cons_suffix read_ident_Cons_suffix)

lemma next_token_length: "next_token ch cs n = Inr (t, rest) \<Longrightarrow> length rest \<le> length cs"
  using next_token_suffix suffix_length_less by blast

subsection \<open>The loop\<close>

function lex_run :: "string \<Rightarrow> nat \<Rightarrow> lex_error + token list" where
  "lex_run s n =
     (case skip_whitespace_and_comments s n of
        ([], m) \<Rightarrow> Inr [mk_token TEOF [] m]
      | (ch # cs, m) \<Rightarrow>
          (case next_token ch cs m of
             Inl e \<Rightarrow> Inl e
           | Inr (t, rest) \<Rightarrow>
               (case lex_run rest m of
                  Inl e \<Rightarrow> Inl e
                | Inr ts \<Rightarrow> Inr (t # ts))))"
  by pat_completeness auto
termination
proof (relation "measure (\<lambda>(s, n). length s)", goal_cases)
  case (2 s n x y ch cs b t rest)
  then have "skip_whitespace_and_comments s n = (ch # cs, y)" "next_token ch cs y = Inr (t, rest)"
    by simp_all
  then have "length (ch # cs) \<le> length s" "length rest \<le> length cs"
    by (blast dest: skip_ws_length next_token_length)+
  then show ?case by simp
qed simp

declare lex_run.simps [simp del]

definition Lex :: "string \<Rightarrow> lex_error + token list" where
  "Lex src = lex_run src 1"

subsection \<open>Shape of the result\<close>

lemma lex_run_cases:
  obtains m where "skip_whitespace_and_comments s n = ([], m)" "lex_run s n = Inr [mk_token TEOF [] m]"
  | ch cs m e where "skip_whitespace_and_comments s n = (ch # cs, m)" "next_token ch cs m = Inl e"
      "lex_run s n = Inl e"
  | ch cs m t rest where "skip_whitespace_and_comments s n = (ch # cs, m)"
      "next_token ch cs m = Inr (t, rest)"
      "lex_run s n = (case lex_run rest m of Inl e \<Rightarrow> Inl e | Inr ts \<Rightarrow> Inr (t # ts))"
proof (cases "skip_whitespace_and_comments s n")
  case skip: (Pair r m)
  show ?thesis
  proof (cases r)
    case Nil
    with skip that(1) show ?thesis by (simp add: lex_run.simps [of s n])
  next
    case (Cons ch cs)
    with skip that(2,3) show ?thesis
      by (cases "next_token ch cs m") (auto simp: lex_run.simps [of s n])
  qed
qed

lemma keyword_type: "keyword w = Some t \<Longrightarrow> t \<noteq> TEOF"
  unfolding keyword_def by (drule map_of_SomeD) auto

lemma next_token_type:
  assumes "next_token ch cs n = Inr (t, rest)"
  shows "tok_type t \<noteq> TEOF \<and> tok_line t = n"
  using assms by (cases rule: next_token_cases) (auto split: option.split dest: keyword_type)

text \<open>The token list of a successful run: tokens of other types, then one EOF.\<close>

definition eof_terminated :: "token list \<Rightarrow> bool" where
  "eof_terminated ts \<longleftrightarrow>
     ts \<noteq> [] \<and> tok_type (last ts) = TEOF \<and> (\<forall>t \<in> set (butlast ts). tok_type t \<noteq> TEOF)"

lemma lex_run_eof: "lex_run s n = Inr ts \<Longrightarrow> eof_terminated ts"
proof (induction "length s" arbitrary: s n ts rule: less_induct)
  case less
  show ?case
  proof (cases s n rule: lex_run_cases)
    case (3 ch cs m t rest)
    with less.prems obtain us where us: "lex_run rest m = Inr us" "ts = t # us"
      by (auto split: sum.split_asm)
    have "length rest < length s"
      using skip_ws_length [OF 3(1)] next_token_length [OF 3(2)] by simp
    then have "eof_terminated us" using us(1) by (rule less.hyps)
    with us(2) next_token_type [OF 3(2)] show ?thesis by (auto simp: eof_terminated_def)
  qed (use less.prems in \<open>auto simp: eof_terminated_def\<close>)
qed

text \<open>Line numbers: what is skipped moves the counter by exactly the newlines in it.\<close>

lemma count_NL_dropWhile: "count_list (dropWhile (\<lambda>c. c \<noteq> NL) s) NL = count_list s NL"
  by (induction s) auto

lemma skip_ws_lines:
  "skip_whitespace_and_comments s n = (r, m) \<Longrightarrow> m + count_list r NL = n + count_list s NL \<and> n \<le> m"
proof (induction s n rule: skip_whitespace_and_comments.induct)
  case (2 ch cs n)
  then show ?case using count_NL_dropWhile [of cs] by (fastforce split: if_splits)
qed simp

lemma next_token_error_line: "next_token ch cs n = Inl e \<Longrightarrow> lex_error_line e = n"
proof -
  have "read_string s n = Inl e \<Longrightarrow> lex_error_line e = n" for s
    by (induction s) (auto split: if_split_asm sum.split_asm)
  then show "next_token ch cs n = Inl e \<Longrightarrow> lex_error_line e = n"
    by (auto dest!: next_token_error)
qed

definition lines_within :: "nat \<Rightarrow> nat \<Rightarrow> lex_error + token list \<Rightarrow> bool" where
  "lines_within lo hi res \<longleftrightarrow>
     (case res of
        Inl e \<Rightarrow> lo \<le> lex_error_line e \<and> lex_error_line e \<le> hi
      | Inr ts \<Rightarrow> sorted (map tok_line ts) \<and> (\<forall>t \<in> set ts. lo \<le> tok_line t \<and> tok_line t \<le> hi))"

lemma lex_run_lines: "lines_within n (n + count_list s NL) (lex_run s n)"
proof (induction "length s" arbitrary: s n rule: less_induct)
  case less
  show ?case
  proof (cases s n rule: lex_run_cases)
    case (1 m)
    then show ?thesis using skip_ws_lines [OF 1(1)] by (simp add: lines_within_def)
  next
    case (2 ch cs m e)
    then show ?thesis using skip_ws_lines [OF 2(1)] next_token_error_line [OF 2(2)]
      by (simp add: lines_within_def)
  next
    case (3 ch cs m t rest)
    have "length rest < length s"
      using skip_ws_length [OF 3(1)] next_token_length [OF 3(2)] by simp
    then have IH: "lines_within m (m + count_list rest NL) (lex_run rest m)" by (rule less.hyps)
    have "count_list rest NL \<le> count_list (ch # cs) NL"
      using count_list_suffix [OF next_token_suffix [OF 3(2)], of NL] by auto
    then have le: "n \<le> m" "m + count_list rest NL \<le> n + count_list s NL"
      using skip_ws_lines [OF 3(1)] by linarith+
    with IH next_token_type [OF 3(2)] show ?thesis
      by (fastforce simp: lines_within_def 3(3) split: sum.splits)
  qed
qed

text \<open>Every token's literal stands in the source.\<close>

lemma read_string_prefix: "read_string s n = Inr (str, rest) \<Longrightarrow> \<exists>q. s = str @ q # rest"
  by (induction s arbitrary: str) (auto split: if_split_asm sum.split_asm)

lemma read_number_append: "read_number s = (w, rest) \<Longrightarrow> s = w @ rest"
  by (cases s) (auto simp: read_number_def Let_def split: if_split_asm)

lemma read_ident_append: "read_ident s = (w, rest) \<Longrightarrow> s = w @ rest"
  by (auto simp: read_ident_def)

lemma next_token_literal:
  assumes "next_token ch cs n = Inr (t, rest)"
  shows "sublist (tok_literal t) (ch # cs)"
  using assms
proof (cases rule: next_token_cases)
  case (string w)
  then show ?thesis using read_string_prefix [of cs n w rest]
    by (auto simp: sublist_def intro: exI [of _ "[ch]"])
qed (auto dest!: read_number_append read_ident_append simp del: sublist_Cons_right
    intro!: prefix_imp_sublist)

lemma sublist_suffix: "sublist xs ys \<Longrightarrow> suffix ys zs \<Longrightarrow> sublist xs zs"
  by (auto simp: sublist_def suffix_def) (metis append.assoc)

lemma lex_run_literals: "lex_run s n = Inr ts \<Longrightarrow> t \<in> set ts \<Longrightarrow> sublist (tok_literal t) s"
proof (induction "length s" arbitrary: s n ts rule: less_induct)
  case less
  show ?case
  proof (cases s n rule: lex_run_cases)
    case (3 ch cs m u rest)
    with less.prems obtain us where us: "lex_run rest m = Inr us" "ts = u # us"
      by (auto split: sum.split_asm)
    have suf: "suffix (ch # cs) s" "suffix rest (ch # cs)"
      using skip_ws_suffix [OF 3(1)] next_token_suffix [OF 3(2)] by (auto intro: suffix_ConsI2)
    have "length rest < length s"
      using skip_ws_length [OF 3(1)] next_token_length [OF 3(2)] by simp
    with less.hyps us(1) have "t \<in> set us \<Longrightarrow> sublist (tok_literal t) rest" by blast
    with less.prems(2) us(2) next_token_literal [OF 3(2)] suf show ?thesis
      by (auto intro: sublist_suffix)
  qed (use less.prems in auto)
qed

subsection \<open>Printing tokens and lexing them back\<close>

text \<open>
  A lexeme is a token without its line.  \<open>wf_lexeme\<close> says which lexemes the lexer can
  produce; \<open>render\<close> writes them one after the other, each followed by a blank.
\<close>

type_synonym lexeme = "token_type \<times> string"

definition fixed_text :: "token_type \<Rightarrow> string option" where
  "fixed_text t =
     map_of
       [(TPOLICY, ''policy''), (TRULE, ''rule''), (TWHEN, ''when''), (TACTION, ''action''),
        (TREASON, ''reason''), (TAND, ''AND''), (TOR, ''OR''), (TNOT_IN, ''NOT_IN''),
        (TGT, ''>''), (TLT, ''<''), (TEQ, ''==''), (TLBRACE, ''{''), (TRBRACE, ''}''),
        (TLBRACKET, ''[''), (TRBRACKET, '']''), (TCOMMA, '',''), (TCOLON, '':'')] t"

definition is_ident :: "string \<Rightarrow> bool" where
  "is_ident w \<longleftrightarrow>
     (case w of [] \<Rightarrow> False | c # cs \<Rightarrow> is_ident_start c \<and> list_all is_ident_continue cs) \<and>
     (keyword w = None \<or> keyword w = Some TIDENT)"

definition is_string_body :: "string \<Rightarrow> bool" where
  "is_string_body s \<longleftrightarrow> list_all (\<lambda>c. c \<noteq> DQUOTE \<and> c \<noteq> NL) s"

definition is_number_text :: "string \<Rightarrow> bool" where
  "is_number_text s \<longleftrightarrow>
     (case (if peek_byte s 0 = CHR ''-'' then drop 1 s else s) of
        [] \<Rightarrow> False
      | d # ds \<Rightarrow> is_digit d \<and> list_all is_number_char ds)"

fun wf_lexeme :: "lexeme \<Rightarrow> bool" where
  "wf_lexeme (TIDENT, l) = is_ident l"
| "wf_lexeme (TSTRING, l) = is_string_body l"
| "wf_lexeme (TNUMBER, l) = is_number_text l"
| "wf_lexeme (t, l) = (fixed_text t = Some l)"

fun lexeme_text :: "lexeme \<Rightarrow> string" where
  "lexeme_text (TSTRING, l) = [DQUOTE] @ l @ [DQUOTE]"
| "lexeme_text (t, l) = l"

definition render :: "lexeme list \<Rightarrow> string" where
  "render ts = concat (map (\<lambda>t. lexeme_text t @ '' '') ts)"

lemma read_string_body:
  "is_string_body s \<Longrightarrow> read_string (s @ DQUOTE # rest) n = Inr (s, rest)"
  by (induction s) (auto simp: is_string_body_def)

lemma read_number_text:
  assumes "is_number_text s"
  shows "read_number (s @ CHR '' '' # rest) = (s, CHR '' '' # rest)"
proof -
  have blank: "\<not> is_number_char (CHR '' '')" by (simp add: byte_defs)
  have run: "takeWhile is_number_char (ds @ CHR '' '' # rest) = ds \<and>
      dropWhile is_number_char (ds @ CHR '' '' # rest) = CHR '' '' # rest"
    if "list_all is_number_char ds" for ds
    using that blank takeWhile_append_stop [of ds is_number_char]
      dropWhile_append_stop [of ds is_number_char]
    by (simp add: list_all_iff)
  obtain c cs where s: "s = c # cs"
    using assms by (cases s) (auto simp: is_number_text_def peek_byte_def)
  show ?thesis
  proof (cases "c = CHR ''-''")
    case True
    with assms s have "list_all is_number_char cs"
      by (auto simp: is_number_text_def peek_byte_def is_number_char_def split: list.split_asm)
    with run True s show ?thesis by (simp add: read_number_def peek_byte_def)
  next
    case False
    with assms s have "list_all is_number_char (c # cs)"
      by (auto simp: is_number_text_def peek_byte_def is_number_char_def)
    with run [of "c # cs"] False s show ?thesis by (simp add: read_number_def peek_byte_def)
  qed
qed

lemma read_ident_text:
  assumes "list_all is_ident_continue w"
  shows "read_ident (w @ CHR '' '' # rest) = (w, CHR '' '' # rest)"
proof -
  have "\<not> is_ident_continue (CHR '' '')" by (simp add: byte_defs)
  with assms show ?thesis
    by (simp add: read_ident_def list_all_iff takeWhile_append_stop dropWhile_append_stop)
qed

text \<open>The bytes with a case of their own in the \<open>switch\<close> do not start an identifier.\<close>

lemma is_ident_start_not_special:
  assumes "is_ident_start c"
  shows "c \<notin> set ''>=<{}[],:-#'' \<and> c \<noteq> DQUOTE \<and> \<not> is_digit c \<and> \<not> is_space_byte c"
proof -
  have "c \<noteq> d" if "\<not> is_ident_start d" for d using assms that by blast
  moreover have "\<forall>d \<in> set ''>=<{}[],:-#''. \<not> is_ident_start d" by (simp add: byte_defs)
  moreover have "\<not> is_ident_start DQUOTE" by (simp add: byte_defs)
  moreover have "\<not> is_digit c" using assms
    by (auto simp: byte_defs less_eq_char_def)
  moreover have "\<not> is_space_byte c" using assms
    by (auto simp: byte_defs less_eq_char_def)
  ultimately show ?thesis by blast
qed

lemma next_token_word:
  assumes "is_ident_start c" and "list_all is_ident_continue cs"
  shows "next_token c (cs @ CHR '' '' # rest) n =
    Inr (mk_token (case keyword (c # cs) of Some t \<Rightarrow> t | None \<Rightarrow> TIDENT) (c # cs) n, CHR '' '' # rest)"
proof -
  have "read_ident (c # cs @ CHR '' '' # rest) = (c # cs, CHR '' '' # rest)"
    using read_ident_text [of "c # cs"] assms by (simp add: is_ident_continue_def)
  with is_ident_start_not_special [OF assms(1)] assms(1) show ?thesis
    by (simp add: next_token_def)
qed

lemma next_token_number:
  assumes "is_number_text l"
  obtains c cs where "l = c # cs" "\<not> is_space_byte c" "c \<noteq> CHR ''#''"
    "next_token c (cs @ CHR '' '' # rest) n = Inr (mk_token TNUMBER l n, CHR '' '' # rest)"
proof -
  obtain c cs where l: "l = c # cs"
    using assms by (cases l) (auto simp: is_number_text_def peek_byte_def)
  have num: "read_number (c # cs @ CHR '' '' # rest) = (c # cs, CHR '' '' # rest)"
    using read_number_text [OF assms] l by simp
  have start: "is_digit c \<or> c = CHR ''-'' \<and> cs \<noteq> [] \<and> is_digit (hd cs)"
    using assms l by (cases cs) (auto simp: is_number_text_def peek_byte_def split: if_split_asm)
  define other where "other = set ''>=<{}[],:#'' \<union> {DQUOTE}"
  have "\<forall>d \<in> other. \<not> is_digit d \<and> d \<noteq> CHR ''-''" by (simp add: byte_defs other_def)
  with start have c: "c \<notin> other" by blast
  have start': "is_digit c \<or> c = CHR ''-'' \<and> is_digit (hd (cs @ CHR '' '' # rest))"
    using start by (cases cs) auto
  have "\<not> is_space_byte c" using start by (auto simp: byte_defs less_eq_char_def)
  moreover have "next_token c (cs @ CHR '' '' # rest) n = Inr (mk_token TNUMBER l n, CHR '' '' # rest)"
    using start' c num l by (simp add: next_token_def other_def)
  ultimately show ?thesis using c l by (intro that [of c cs]) (simp_all add: other_def)
qed

lemma next_token_fixed:
  assumes "fixed_text t = Some l" and "t \<notin> {TIDENT, TSTRING, TNUMBER}"
  obtains c cs where "l = c # cs" "\<not> is_space_byte c" "c \<noteq> CHR ''#''"
    "next_token c (cs @ CHR '' '' # rest) n = Inr (mk_token t l n, CHR '' '' # rest)"
proof (cases "t \<in> {TPOLICY, TRULE, TWHEN, TACTION, TREASON, TAND, TOR, TNOT_IN}")
  case True
  have kw: "keyword l = Some t"
    using True assms(1) by (elim insertE emptyE; clarsimp simp: fixed_text_def)
      (auto simp: keyword_def)
  have "l \<noteq> [] \<and> list_all is_ident_continue l \<and> is_ident_start (hd l)"
    using True assms(1) by (elim insertE emptyE; clarsimp simp: fixed_text_def)
      (auto simp: byte_defs)
  then obtain c cs where l: "l = c # cs" and c: "is_ident_start c" "list_all is_ident_continue cs"
    by (cases l) simp_all
  from next_token_word [OF c, of rest n] kw l
  have "next_token c (cs @ CHR '' '' # rest) n = Inr (mk_token t l n, CHR '' '' # rest)" by simp
  with l is_ident_start_not_special [OF c(1)] show ?thesis by (auto intro: that)
next
  case False
  have "t \<in> {TGT, TLT, TEQ, TLBRACE, TRBRACE, TLBRACKET, TRBRACKET, TCOMMA, TCOLON}"
    using assms False by (cases t) (simp_all add: fixed_text_def)
  then have "\<exists>c cs. l = c # cs \<and> \<not> is_space_byte c \<and> c \<noteq> CHR ''#'' \<and>
      next_token c (cs @ CHR '' '' # rest) n = Inr (mk_token t l n, CHR '' '' # rest)"
    using assms(1)
    by (elim insertE emptyE; clarsimp simp: fixed_text_def)
      (auto simp: next_token_def peek_byte_def is_space_byte_def)
  with that show ?thesis by blast
qed

lemma next_token_lexeme:
  assumes "wf_lexeme (t, l)"
  obtains c cs where "lexeme_text (t, l) = c # cs" "\<not> is_space_byte c" "c \<noteq> CHR ''#''"
    "next_token c (cs @ CHR '' '' # rest) n = Inr (mk_token t l n, CHR '' '' # rest)"
proof (cases "t \<in> {TIDENT, TSTRING, TNUMBER}")
  case False
  with assms have "fixed_text t = Some l" "lexeme_text (t, l) = l" by (cases t; simp)+
  with False show ?thesis using that by (metis next_token_fixed)
next
  case True
  then consider "t = TIDENT" | "t = TSTRING" | "t = TNUMBER" by blast
  then show ?thesis
  proof cases
    case 1
    with assms obtain c cs where l: "l = c # cs"
      and c: "is_ident_start c" "list_all is_ident_continue cs"
      and kw: "keyword l = None \<or> keyword l = Some TIDENT"
      by (cases l) (auto simp: is_ident_def)
    from next_token_word [OF c, of rest n] kw l 1
    have "next_token c (cs @ CHR '' '' # rest) n = Inr (mk_token t l n, CHR '' '' # rest)" by auto
    with l 1 is_ident_start_not_special [OF c(1)] show ?thesis by (auto intro: that)
  next
    case 2
    with assms read_string_body [of l "CHR '' '' # rest" n]
    have "next_token DQUOTE (l @ DQUOTE # CHR '' '' # rest) n = Inr (mk_token t l n, CHR '' '' # rest)"
      by (simp add: next_token_def)
    with 2 show ?thesis by (intro that [of DQUOTE "l @ [DQUOTE]"]) (simp_all add: is_space_byte_def)
  next
    case 3
    with assms show ?thesis using that by (auto elim!: next_token_number [of l rest n])
  qed
qed

lemma lex_run_blank: "lex_run (CHR '' '' # s) n = lex_run s n"
  by (subst (1 2) lex_run.simps) (simp add: is_space_byte_def)

lemma lex_run_render_append:
  "\<forall>t \<in> set ts. wf_lexeme t \<Longrightarrow>
   lex_run (render ts @ s) n = map_sum id ((@) (map (\<lambda>(t, l). mk_token t l n) ts)) (lex_run s n)"
proof (induction ts)
  case Nil
  show ?case by (cases "lex_run s n") (simp_all add: render_def)
next
  case (Cons tl ts)
  obtain t l where tl: "tl = (t, l)" by fastforce
  with Cons.prems have "wf_lexeme (t, l)" by simp
  then obtain c cs where tx: "lexeme_text (t, l) = c # cs" "\<not> is_space_byte c" "c \<noteq> CHR ''#''"
    and nt: "next_token c (cs @ CHR '' '' # render ts @ s) n =
      Inr (mk_token t l n, CHR '' '' # render ts @ s)"
    by (rule next_token_lexeme [where n = n and rest = "render ts @ s"])
  have eq: "render (tl # ts) @ s = c # cs @ CHR '' '' # render ts @ s" by (simp add: render_def tl tx(1))
  have nl: "c \<noteq> NL" using tx(2) by (auto simp: is_space_byte_def)
  have "skip_whitespace_and_comments (render (tl # ts) @ s) n = (c # cs @ CHR '' '' # render ts @ s, n)"
    using tx nl by (simp add: eq)
  with nt Cons tl show ?case
    by (subst lex_run.simps) (cases "lex_run s n"; simp add: lex_run_blank)
qed

lemma lex_run_Nil: "lex_run [] n = Inr [mk_token TEOF [] n]"
  by (simp add: lex_run.simps [of "[]"])

lemma lex_run_render:
  "\<forall>t \<in> set ts. wf_lexeme t \<Longrightarrow>
   lex_run (render ts) n = Inr (map (\<lambda>(t, l). mk_token t l n) ts @ [mk_token TEOF [] n])"
  using lex_run_render_append [of ts "[]" n] by (simp add: lex_run_Nil)

text \<open>Conversely, every token the lexer produces is one of these lexemes.\<close>

definition lexeme_of :: "token \<Rightarrow> lexeme" where
  "lexeme_of t = (tok_type t, tok_literal t)"

lemma lexeme_of_mk_token [simp]: "lexeme_of (mk_token t l n) = (t, l)"
  by (simp add: lexeme_of_def)

lemma read_string_is_body: "read_string s n = Inr (w, rest) \<Longrightarrow> is_string_body w"
  by (induction s arbitrary: w) (auto simp: is_string_body_def split: if_split_asm sum.split_asm)

lemma list_all_takeWhile: "list_all P (takeWhile P xs)"
  by (auto simp: list_all_iff dest: set_takeWhileD)

lemma read_number_is_number:
  assumes "read_number (c # cs) = (w, rest)" and "is_digit c \<or> c = CHR ''-'' \<and> cs \<noteq> [] \<and> is_digit (hd cs)"
  shows "is_number_text w"
proof (cases "c = CHR ''-''")
  case True
  with assms have "cs \<noteq> []" "is_digit (hd cs)" by (auto simp: is_digit_def)
  then obtain d ds where "cs = d # ds" "is_digit d" by (cases cs) auto
  with assms(1) True show ?thesis
    by (auto simp: read_number_def peek_byte_def is_number_text_def is_number_char_def list_all_takeWhile)
next
  case False
  with assms show ?thesis
    by (auto simp: read_number_def peek_byte_def is_number_text_def is_number_char_def list_all_takeWhile)
qed

lemma keyword_Some:
  assumes "keyword w = Some t"
  shows "t = TIDENT \<or> t \<notin> {TIDENT, TSTRING, TNUMBER, TEOF} \<and> fixed_text t = Some w"
  using assms unfolding keyword_def by (drule_tac map_of_SomeD) (auto simp: fixed_text_def)

lemma next_token_number_start:
  assumes "next_token ch cs n = Inr (mk_token TNUMBER w m, rest)"
  shows "is_digit ch \<or> ch = CHR ''-'' \<and> cs \<noteq> [] \<and> is_digit (hd cs)"
proof -
  have kw: "keyword v \<noteq> Some TNUMBER" for v by (auto dest!: keyword_Some)
  show ?thesis
    using assms unfolding next_token_def Let_def
    by (simp add: kw split: if_split_asm sum.split_asm prod.split_asm option.split_asm)
qed

lemma next_token_wf:
  assumes nt: "next_token ch cs n = Inr (t, rest)"
  shows "wf_lexeme (lexeme_of t)"
  using nt
proof (cases rule: next_token_cases)
  case (string w)
  then show ?thesis by (simp add: read_string_is_body)
next
  case (punct ty)
  show ?thesis
  proof -
    have "fixed_text ty = Some [ch]"
      using nt punct unfolding next_token_def Let_def
      by (simp split: if_split_asm sum.split_asm prod.split_asm option.split_asm)
        (auto simp: fixed_text_def dest!: keyword_Some)
    with punct show ?thesis by auto
  qed
next
  case eq
  then show ?thesis by (simp add: fixed_text_def)
next
  case (number w)
  with nt next_token_number_start read_number_is_number show ?thesis by auto
next
  case (ident w)
  then have w: "\<exists>c cs. w = c # cs \<and> is_ident_start c \<and> list_all is_ident_continue cs"
    by (auto simp: read_ident_def is_ident_continue_def list_all_takeWhile)
  show ?thesis
  proof (cases "keyword w = None \<or> keyword w = Some TIDENT")
    case True
    with w ident show ?thesis by (auto simp: is_ident_def)
  next
    case False
    then obtain k where k: "keyword w = Some k" "k \<noteq> TIDENT" by auto
    with keyword_Some [OF k(1)] ident show ?thesis by (cases k) simp_all
  qed
qed

lemma lex_run_wf: "lex_run s n = Inr ts \<Longrightarrow> t \<in> set ts \<Longrightarrow> tok_type t \<noteq> TEOF \<Longrightarrow> wf_lexeme (lexeme_of t)"
proof (induction "length s" arbitrary: s n ts rule: less_induct)
  case less
  show ?case
  proof (cases s n rule: lex_run_cases)
    case (3 ch cs m u rest)
    with less.prems obtain us where us: "lex_run rest m = Inr us" "ts = u # us"
      by (auto split: sum.split_asm)
    have "length rest < length s"
      using skip_ws_length [OF 3(1)] next_token_length [OF 3(2)] by simp
    with less us next_token_wf [OF 3(2)] show ?thesis by auto
  qed (use less.prems in auto)
qed

subsection \<open>Properties\<close>

definition eof_or_wf :: "token \<Rightarrow> bool" where
  "eof_or_wf t = (if tok_type t = TEOF then tok_literal t = [] else wf_lexeme (lexeme_of t))"

lemma lex_run_eof_or_wf: "lex_run s n = Inr ts \<Longrightarrow> list_all eof_or_wf ts"
proof (induction "length s" arbitrary: s n ts rule: less_induct)
  case less
  show ?case
  proof (cases s n rule: lex_run_cases)
    case (3 ch cs m u rest)
    with less.prems obtain us where us: "lex_run rest m = Inr us" "ts = u # us"
      by (auto split: sum.split_asm)
    have "length rest < length s"
      using skip_ws_length [OF 3(1)] next_token_length [OF 3(2)] by simp
    with less us next_token_wf [OF 3(2)] next_token_type [OF 3(2)] show ?thesis
      by (auto simp: eof_or_wf_def)
  qed (use less.prems in \<open>auto simp: eof_or_wf_def\<close>)
qed

text \<open>
  C39: the lexer never loses the end of the input and never invents text.  For every source,
  a successful run gives tokens of which exactly the last one is EOF, in the order of
  their lines, each on a line of the source and with a literal that stands in the source
  and has the form of its type (a keyword token carries its keyword, a number starts with
  a digit after an optional minus, a string has no quote and no newline); a failing run
  reports a line of the source.
\<close>

theorem lex_result:
  "case Lex src of
     Inl e \<Rightarrow> 1 \<le> lex_error_line e \<and> lex_error_line e \<le> 1 + count_list src NL
   | Inr ts \<Rightarrow>
       eof_terminated ts \<and> sorted (map tok_line ts) \<and>
       list_all (\<lambda>t. 1 \<le> tok_line t \<and> tok_line t \<le> 1 + count_list src NL \<and>
                     sublist (tok_literal t) src \<and> eof_or_wf t) ts"
proof (cases "Lex src")
  case (Inl e)
  with lex_run_lines [of 1 src] show ?thesis by (simp add: Lex_def lines_within_def)
next
  case (Inr ts)
  then have run: "lex_run src 1 = Inr ts" by (simp add: Lex_def)
  with lex_run_lines [of 1 src] lex_run_eof [OF run] lex_run_eof_or_wf [OF run]
    lex_run_literals [OF run] Inr
  show ?thesis by (auto simp: lines_within_def list_all_iff)
qed

text \<open>
  What is written as tokens is read as these tokens.  The text of a list of well-formed
  tokens, each followed by a blank, lexes to exactly this list and the EOF token; in
  particular no token is glued to its neighbour, no keyword is read as an identifier and
  no number loses its sign.
\<close>

theorem lex_render:
  assumes "list_all wf_lexeme ts"
  shows "Lex (render ts) = Inr (map (\<lambda>(t, l). mk_token t l 1) ts @ [mk_token TEOF [] 1])"
  unfolding Lex_def by (rule lex_run_render) (use assms in \<open>simp add: list_all_iff\<close>)

lemma lex_render_witness:
  "Lex (render [(TWHEN, ''when''), (TIDENT, ''input.risk_score''), (TGT, ''>''), (TNUMBER, ''-0.5'')]) =
   Inr [mk_token TWHEN ''when'' 1, mk_token TIDENT ''input.risk_score'' 1, mk_token TGT ''>'' 1,
        mk_token TNUMBER ''-0.5'' 1, mk_token TEOF [] 1]"
proof -
  have "list_all wf_lexeme [(TWHEN, ''when''), (TIDENT, ''input.risk_score''), (TGT, ''>''), (TNUMBER, ''-0.5'')]"
    by code_simp
  from lex_render [OF this] show ?thesis by simp
qed

text \<open>
  Layout does not matter.  Writing the tokens of any accepted source one after the
  other on a single line, without its comments and line breaks, and lexing that again
  gives the same tokens.
\<close>

theorem lex_normalise:
  assumes "Lex src = Inr ts"
  shows "map_sum id (map lexeme_of) (Lex (render (map lexeme_of (butlast ts)))) = Inr (map lexeme_of ts)"
proof -
  have run: "lex_run src 1 = Inr ts" using assms by (simp add: Lex_def)
  then have eof: "eof_terminated ts" and wf: "list_all eof_or_wf ts"
    by (rule lex_run_eof, rule lex_run_eof_or_wf)
  then have ts: "ts = butlast ts @ [last ts]" and last: "lexeme_of (last ts) = (TEOF, [])"
    by (auto simp: eof_terminated_def lexeme_of_def list_all_iff eof_or_wf_def)
  have "\<forall>t \<in> set (map lexeme_of (butlast ts)). wf_lexeme t"
    using wf eof unfolding eof_terminated_def list_all_iff eof_or_wf_def
    by (auto dest: in_set_butlastD) (metis in_set_butlastD)
  then have "Lex (render (map lexeme_of (butlast ts))) =
      Inr (map (\<lambda>(t, l). mk_token t l 1) (map lexeme_of (butlast ts)) @ [mk_token TEOF [] 1])"
    unfolding Lex_def by (rule lex_run_render)
  moreover have "map lexeme_of ts = map lexeme_of (butlast ts) @ [(TEOF, [])]"
    by (subst ts) (simp add: last)
  ultimately show ?thesis by (simp add: case_prod_beta comp_def)
qed

lemma lex_normalise_witness:
  "map_sum id (map lexeme_of) (Lex (render [(TIDENT, ''x''), (TEQ, ''=='')])) =
   Inr [(TIDENT, ''x''), (TEQ, ''==''), (TEOF, [])]"
proof -
  have "Lex (''x# c'' @ [NL] @ '' =='') =
      Inr [mk_token TIDENT ''x'' 1, mk_token TEQ ''=='' 2, mk_token TEOF [] 2]" by code_simp
  from lex_normalise [OF this] show ?thesis by simp
qed

end
