(* ===== verification/Go_Float64.thy ===== *)
theory Go_Float64
  imports Go_Base Complex_Main
begin

text \<open>
  IEEE 754 binary64, as far as the program uses it.  A finite double is the rational
  it denotes; \<open>rnd\<close> rounds a rational to the nearest double, ties to even, with the
  subnormal range below \<open>2 powi -1022\<close>.  Every \<open>+\<close>, \<open>*\<close> and \<open>/\<close> of the source on
  \<open>float64\<close> is \<open>rnd\<close> of the exact result.  The type \<open>f64\<close> adds NaN and the
  infinities, for values that come out of \<open>strconv.ParseFloat\<close>; the sign of zero is
  not represented, since the program never divides by a double that can be zero and
  comparisons do not see it.  The second half models \<open>strconv.ParseFloat(s, 64)\<close>.
\<close>

subsection \<open>Rounding to nearest, ties to even\<close>

definition round_half_even :: "rat \<Rightarrow> int" where
  "round_half_even q =
     (let f = \<lfloor>q\<rfloor>; r = q - of_int f
      in if r < 1 / 2 then f
         else if 1 / 2 < r then f + 1
         else if even f then f else f + 1)"

fun bit_len :: "int \<Rightarrow> nat" where
  "bit_len n = (if n \<le> 0 then 0 else Suc (bit_len (n div 2)))"

declare bit_len.simps [simp del]

lemma bit_len_bounds: "0 < n \<Longrightarrow> 0 < bit_len n \<and> 2 ^ (bit_len n - 1) \<le> n \<and> n < 2 ^ bit_len n"
proof (induction n rule: bit_len.induct)
  case (1 n)
  show ?case
  proof (cases "n div 2 = 0")
    case True
    with 1(2) have "n = 1" by auto
    then show ?thesis by (simp add: bit_len.simps)
  next
    case False
    let ?b = "bit_len (n div 2)"
    from 1(2) False have "0 < n div 2" by linarith
    with 1 have IH: "0 < ?b" "2 ^ (?b - 1) \<le> n div 2" "n div 2 < 2 ^ ?b" by auto
    have eq: "bit_len n = Suc ?b" using 1(2) by (subst bit_len.simps) simp
    from IH(1) have "(2::int) ^ ?b = 2 * 2 ^ (?b - 1)" by (cases ?b) auto
    with IH(2) have "2 ^ ?b \<le> n" by linarith
    moreover from IH(3) have "n < 2 * 2 ^ ?b" by linarith
    ultimately show ?thesis by (simp add: eq)
  qed
qed

text \<open>The exponent of the unit in the last place of a positive rational.\<close>

definition ulp_exp :: "rat \<Rightarrow> int" where
  "ulp_exp x =
     (let (n, d) = quotient_of x;
          k = int (bit_len n) - int (bit_len d) - 53
      in max (- 1074) (if x < 2 powi (k + 53) then k else k + 1))"

definition rnd_pos :: "rat \<Rightarrow> rat" where
  "rnd_pos x = (let e = ulp_exp x in of_int (round_half_even (x / 2 powi e)) * 2 powi e)"

definition rnd :: "rat \<Rightarrow> rat" where
  "rnd x = (if x = 0 then 0 else if x < 0 then - rnd_pos (- x) else rnd_pos x)"

text \<open>
  Code equations over the numerator and the denominator, so that a concrete \<open>rnd x\<close> is
  evaluated with integer arithmetic only.
\<close>

definition rhe_div :: "int \<Rightarrow> int \<Rightarrow> int" where
  "rhe_div n d = (let q = n div d; r = 2 * (n mod d) in
     if r < d then q else if d < r then q + 1 else if even q then q else q + 1)"

lemma rhe_div: "0 < d \<Longrightarrow> round_half_even (of_int n / of_int d) = rhe_div n d"
proof -
  assume d: "0 < d"
  have "\<lfloor>(of_int n / of_int d :: rat)\<rfloor> = n div d" by (simp add: floor_divide_of_int_eq)
  moreover have "(of_int n / of_int d :: rat) - of_int (n div d) = of_int (n mod d) / of_int d"
    using d by (simp add: field_simps) (metis add.commute mult.commute mult_div_mod_eq of_int_add of_int_mult)
  moreover have "of_int (n mod d) / of_int d < (1 / 2 :: rat) \<longleftrightarrow> 2 * (n mod d) < d"
    using d by (simp add: field_simps) (metis of_int_less_iff of_int_mult of_int_numeral mult.commute)
  moreover have "(1 / 2 :: rat) < of_int (n mod d) / of_int d \<longleftrightarrow> d < 2 * (n mod d)"
    using d by (simp add: field_simps) (metis of_int_less_iff of_int_mult of_int_numeral mult.commute)
  ultimately show ?thesis
    unfolding round_half_even_def rhe_div_def Let_def by (simp only:)
qed

definition below_pow2 :: "int \<Rightarrow> int \<Rightarrow> int \<Rightarrow> bool" where
  "below_pow2 n d k = (if 0 \<le> k then n < d * 2 ^ nat k else n * 2 ^ nat (- k) < d)"

lemma below_pow2:
  assumes "0 < d"
  shows "(of_int n / of_int d :: rat) < 2 powi k \<longleftrightarrow> below_pow2 n d k"
proof (cases "0 \<le> k")
  case True
  then have p: "(2::rat) powi k = of_int (2 ^ nat k)" by (simp add: power_int_def)
  have "(of_int n / of_int d :: rat) < of_int (2 ^ nat k) \<longleftrightarrow> of_int n < (of_int (2 ^ nat k * d) :: rat)"
    using assms by (simp add: pos_divide_less_eq)
  also have "\<dots> \<longleftrightarrow> n < 2 ^ nat k * d" by (rule of_int_less_iff)
  finally show ?thesis using True by (simp add: p below_pow2_def mult.commute)
next
  case False
  then have p: "(2::rat) powi k = 1 / of_int (2 ^ nat (- k))" by (simp add: power_int_def field_simps)
  have "(of_int n / of_int d :: rat) < 1 / of_int (2 ^ nat (- k)) \<longleftrightarrow>
      of_int (n * 2 ^ nat (- k)) < (of_int d :: rat)"
    using assms by (simp add: divide_less_eq less_divide_eq)
  also have "\<dots> \<longleftrightarrow> n * 2 ^ nat (- k) < d" by (rule of_int_less_iff)
  finally show ?thesis using False by (simp add: p below_pow2_def)
qed

definition ulp_exp_frac :: "int \<Rightarrow> int \<Rightarrow> int" where
  "ulp_exp_frac n d = (let k = int (bit_len n) - int (bit_len d) - 53
     in max (- 1074) (if below_pow2 n d (k + 53) then k else k + 1))"

lemma ulp_exp_code [code]: "ulp_exp x = (let (n, d) = quotient_of x in ulp_exp_frac n d)"
proof -
  obtain n d where nd: "quotient_of x = (n, d)" by fastforce
  then have "0 < d" "x = of_int n / of_int d" by (auto dest: quotient_of_div quotient_of_denom_pos)
  with nd show ?thesis by (simp add: ulp_exp_def ulp_exp_frac_def below_pow2 Let_def)
qed

lemma rnd_pos_code [code]:
  "rnd_pos x = (let (n, d) = quotient_of x; e = ulp_exp_frac n d
     in if 0 \<le> e then of_int (rhe_div n (d * 2 ^ nat e) * 2 ^ nat e)
        else of_int (rhe_div (n * 2 ^ nat (- e)) d) / of_int (2 ^ nat (- e)))"
proof -
  obtain n d where nd: "quotient_of x = (n, d)" by fastforce
  then have d: "0 < d" and x: "x = of_int n / of_int d" by (auto dest: quotient_of_div quotient_of_denom_pos)
  have e: "ulp_exp x = ulp_exp_frac n d" by (simp add: ulp_exp_code nd)
  show ?thesis
  proof (cases "0 \<le> ulp_exp_frac n d")
    case True
    then have p: "(2::rat) powi ulp_exp_frac n d = of_int (2 ^ nat (ulp_exp_frac n d))" by (simp add: power_int_def)
    have "x / 2 powi ulp_exp_frac n d = of_int n / of_int (d * 2 ^ nat (ulp_exp_frac n d))"
      unfolding p x by simp
    then have "round_half_even (x / 2 powi ulp_exp_frac n d) = rhe_div n (d * 2 ^ nat (ulp_exp_frac n d))"
      by (simp only: rhe_div [OF mult_pos_pos [OF d zero_less_power [OF zero_less_numeral]]])
    with True p show ?thesis by (simp add: rnd_pos_def e nd Let_def)
  next
    case False
    then have p: "(2::rat) powi ulp_exp_frac n d = 1 / of_int (2 ^ nat (- ulp_exp_frac n d))"
      by (simp add: power_int_def field_simps)
    have "x / 2 powi ulp_exp_frac n d = of_int (n * 2 ^ nat (- ulp_exp_frac n d)) / of_int d"
      unfolding p x by simp
    then have "round_half_even (x / 2 powi ulp_exp_frac n d) = rhe_div (n * 2 ^ nat (- ulp_exp_frac n d)) d"
      by (simp only: rhe_div [OF d])
    with False p show ?thesis by (simp add: rnd_pos_def e nd Let_def)
  qed
qed

lemma round_half_even_of_int [simp]: "round_half_even (of_int z) = z"
  by (simp add: round_half_even_def)

lemma round_half_even_bounds: "\<lfloor>q\<rfloor> \<le> round_half_even q \<and> round_half_even q \<le> \<lfloor>q\<rfloor> + 1"
  by (simp add: round_half_even_def Let_def)

lemma round_half_even_mono: "p \<le> q \<Longrightarrow> round_half_even p \<le> round_half_even q"
proof -
  assume le: "p \<le> q"
  then have fl: "\<lfloor>p\<rfloor> \<le> \<lfloor>q\<rfloor>" by (rule floor_mono)
  show ?thesis
  proof (cases "\<lfloor>p\<rfloor> = \<lfloor>q\<rfloor>")
    case True
    with le show ?thesis by (auto simp: round_half_even_def Let_def)
  next
    case False
    with fl have "\<lfloor>p\<rfloor> + 1 \<le> \<lfloor>q\<rfloor>" by simp
    with round_half_even_bounds [of p] round_half_even_bounds [of q] show ?thesis by linarith
  qed
qed

lemma round_half_even_le: "q \<le> of_int z \<Longrightarrow> round_half_even q \<le> z"
  using round_half_even_mono [of q "of_int z"] by simp

lemma round_half_even_ge: "of_int z \<le> q \<Longrightarrow> z \<le> round_half_even q"
  using round_half_even_mono [of "of_int z" q] by simp

lemma powi_add_nat: "(2::rat) powi (k + int m) = 2 powi k * 2 ^ m"
  by (simp add: power_int_add)

lemma powi_pos [simp]: "0 < (2::rat) powi k"
  by simp

lemma powi_mono: "k \<le> l \<Longrightarrow> (2::rat) powi k \<le> 2 powi l"
  by (rule power_int_increasing) simp_all

lemma of_int_power_bounds:
  assumes "2 ^ (m - 1) \<le> n" and "n < 2 ^ m"
  shows "2 ^ (m - 1) \<le> (of_int n :: rat) \<and> (of_int n :: rat) < 2 ^ m"
proof -
  have "of_int (2 ^ (m - 1)) \<le> (of_int n :: rat)" using assms(1) by (simp only: of_int_le_iff)
  moreover have "(of_int n :: rat) < of_int (2 ^ m)" using assms(2) by (simp only: of_int_less_iff)
  ultimately show ?thesis by simp
qed

text \<open>The exponent places the scaled value below \<open>2 ^ 53\<close>, and above \<open>2 ^ 52\<close> when normal.\<close>

lemma ulp_exp_bounds:
  assumes "0 < x"
  shows "x < 2 powi (ulp_exp x + 53)"
    and "ulp_exp x = - 1074 \<or> 2 powi (ulp_exp x + 52) \<le> x"
    and "- 1074 \<le> ulp_exp x"
proof -
  obtain n d where nd: "quotient_of x = (n, d)" by (cases "quotient_of x") auto
  then have x: "x = of_int n / of_int d" and d: "0 < d"
    by (auto dest: quotient_of_div quotient_of_denom_pos)
  with assms have n: "0 < n" by (simp add: zero_less_divide_iff)
  define a b where "a = bit_len n" and "b = bit_len d"
  from bit_len_bounds [OF n] have a: "0 < a" "2 ^ (a - 1) \<le> n" "n < 2 ^ a"
    by (auto simp: a_def)
  from bit_len_bounds [OF d] have b: "0 < b" "2 ^ (b - 1) \<le> d" "d < 2 ^ b"
    by (auto simp: b_def)
  have nr: "2 ^ (a - 1) \<le> (of_int n :: rat)" "(of_int n :: rat) < 2 ^ a"
    using of_int_power_bounds [OF a(2,3)] by auto
  have dr: "2 ^ (b - 1) \<le> (of_int d :: rat)" "(of_int d :: rat) < 2 ^ b"
    using of_int_power_bounds [OF b(2,3)] by auto
  define k where "k = int a - int b - 53"
  have e: "ulp_exp x = max (- 1074) (if x < 2 powi (k + 53) then k else k + 1)"
    by (simp add: ulp_exp_def nd k_def a_def b_def)
  have hi: "x < 2 powi (k + 54)"
  proof -
    have "x < 2 ^ a / 2 ^ (b - 1)"
      unfolding x using nr dr n by (intro frac_less) auto
    also have "\<dots> = 2 powi (int a - int (b - 1))"
      by (simp add: power_int_diff)
    also have "int a - int (b - 1) = k + 54" using b(1) by (simp add: k_def)
    finally show ?thesis .
  qed
  have lo: "2 powi (k + 52) \<le> x"
  proof -
    have "2 powi (k + 52) = (2::rat) powi (int (a - 1) - int b)"
      using a(1) by (simp add: k_def algebra_simps)
    also have "\<dots> = 2 ^ (a - 1) / 2 ^ b"
      by (simp add: power_int_diff)
    also have "\<dots> \<le> x" unfolding x using nr dr d n by (intro frac_le) auto
    finally show ?thesis .
  qed
  show "- 1074 \<le> ulp_exp x" by (simp add: e)
  have "x < 2 powi ((if x < 2 powi (k + 53) then k else k + 1) + 53)"
    using hi by (simp add: algebra_simps)
  also have "\<dots> \<le> (2::rat) powi (ulp_exp x + 53)" by (rule powi_mono) (simp add: e)
  finally show "x < 2 powi (ulp_exp x + 53)" .
  show "ulp_exp x = - 1074 \<or> 2 powi (ulp_exp x + 52) \<le> x"
    using lo by (auto simp: e max_def algebra_simps)
qed


lemma ulp_exp_mono:
  assumes "0 < x" and "x \<le> y"
  shows "ulp_exp x \<le> ulp_exp y"
proof (rule ccontr)
  assume "\<not> ulp_exp x \<le> ulp_exp y"
  then have lt: "ulp_exp y + 53 \<le> ulp_exp x + 52" by simp
  have "ulp_exp x \<noteq> - 1074" using lt ulp_exp_bounds(3) [of y] assms by auto
  then have "2 powi (ulp_exp x + 52) \<le> x" using ulp_exp_bounds(2) [OF assms(1)] by blast
  moreover have "(2::rat) powi (ulp_exp y + 53) \<le> 2 powi (ulp_exp x + 52)"
    by (rule powi_mono) (rule lt)
  moreover have "y < 2 powi (ulp_exp y + 53)" using ulp_exp_bounds(1) [of y] assms by simp
  ultimately show False using assms(2) by linarith
qed

text \<open>The significand after rounding: at most \<open>2 ^ 53\<close>, and at least \<open>2 ^ 52\<close> when normal.\<close>

lemma significand_le:
  assumes "0 < x"
  shows "round_half_even (x / 2 powi ulp_exp x) \<le> 2 ^ 53"
proof (rule round_half_even_le)
  have "x < 2 ^ 53 * 2 powi ulp_exp x"
    using ulp_exp_bounds(1) [OF assms] powi_add_nat [of "ulp_exp x" 53] by (simp add: ac_simps)
  then show "x / 2 powi ulp_exp x \<le> of_int (2 ^ 53)"
    by (simp add: pos_divide_le_eq)
qed

lemma significand_ge:
  assumes "0 < x" and "ulp_exp x \<noteq> - 1074"
  shows "2 ^ 52 \<le> round_half_even (x / 2 powi ulp_exp x)"
proof (rule round_half_even_ge)
  have "2 ^ 52 * 2 powi ulp_exp x \<le> x"
    using ulp_exp_bounds(2) [OF assms(1)] assms(2) powi_add_nat [of "ulp_exp x" 52]
    by (simp add: ac_simps)
  then show "of_int (2 ^ 52) \<le> x / 2 powi ulp_exp x"
    by (simp add: pos_le_divide_eq)
qed

lemma significand_le_rat:
  assumes "0 < x"
  shows "(of_int (round_half_even (x / 2 powi ulp_exp x)) :: rat) \<le> 2 ^ 53"
proof -
  have "(of_int (round_half_even (x / 2 powi ulp_exp x)) :: rat) \<le> of_int (2 ^ 53)"
    by (simp only: of_int_le_iff significand_le [OF assms])
  then show ?thesis by simp
qed

lemma significand_ge_rat:
  assumes "0 < x" and "ulp_exp x \<noteq> - 1074"
  shows "2 ^ 52 \<le> (of_int (round_half_even (x / 2 powi ulp_exp x)) :: rat)"
proof -
  have "of_int (2 ^ 52) \<le> (of_int (round_half_even (x / 2 powi ulp_exp x)) :: rat)"
    by (simp only: of_int_le_iff significand_ge [OF assms])
  then show ?thesis by simp
qed

lemma rnd_pos_nonneg: "0 < x \<Longrightarrow> 0 \<le> rnd_pos x"
  unfolding rnd_pos_def Let_def
  by (intro mult_nonneg_nonneg) (auto intro!: round_half_even_ge)

lemma rnd_pos_mono:
  assumes "0 < x" and "x \<le> y"
  shows "rnd_pos x \<le> rnd_pos y"
proof (cases "ulp_exp x = ulp_exp y")
  case True
  have "round_half_even (x / 2 powi ulp_exp y) \<le> round_half_even (y / 2 powi ulp_exp y)"
    using assms by (intro round_half_even_mono divide_right_mono) auto
  with True show ?thesis by (simp add: rnd_pos_def Let_def)
next
  case False
  with ulp_exp_mono [OF assms] have lt: "ulp_exp x + 1 \<le> ulp_exp y" by simp
  from assms have y: "0 < y" by simp
  from lt ulp_exp_bounds(3) [OF assms(1)] have ny: "ulp_exp y \<noteq> - 1074" by simp
  have "rnd_pos x \<le> 2 ^ 53 * 2 powi ulp_exp x"
    unfolding rnd_pos_def Let_def
    by (rule mult_right_mono [OF significand_le_rat [OF assms(1)]]) simp
  also have "\<dots> = 2 ^ 52 * 2 powi (ulp_exp x + 1)"
    using powi_add_nat [of "ulp_exp x" 1] by simp
  also have "\<dots> \<le> 2 ^ 52 * 2 powi ulp_exp y"
    by (intro mult_left_mono powi_mono lt) simp
  also have "\<dots> \<le> rnd_pos y"
    unfolding rnd_pos_def Let_def
    by (rule mult_right_mono [OF significand_ge_rat [OF y ny]]) simp
  finally show ?thesis .
qed

lemma rnd_0 [simp]: "rnd 0 = 0"
  by (simp add: rnd_def)

lemma rnd_nonneg: "0 \<le> x \<Longrightarrow> 0 \<le> rnd x"
  by (simp add: rnd_def rnd_pos_nonneg)

lemma rnd_nonpos: "x \<le> 0 \<Longrightarrow> rnd x \<le> 0"
  by (simp add: rnd_def rnd_pos_nonneg)

lemma rnd_mono: "x \<le> y \<Longrightarrow> rnd x \<le> rnd y"
proof -
  assume le: "x \<le> y"
  consider "x \<le> 0 \<and> 0 \<le> y" | "0 < x" | "y < 0" using le by linarith
  then show ?thesis
  proof cases
    case 1
    then show ?thesis using rnd_nonneg [of y] rnd_nonpos [of x] by linarith
  next
    case 2
    with le show ?thesis by (simp add: rnd_def rnd_pos_mono)
  next
    case 3
    with le show ?thesis by (simp add: rnd_def rnd_pos_mono)
  qed
qed

lemma rnd_le_1: "x \<le> 1 \<Longrightarrow> rnd x \<le> 1"
proof -
  have "rnd 1 = 1" by code_simp
  then show "x \<le> 1 \<Longrightarrow> rnd x \<le> 1" using rnd_mono [of x 1] by simp
qed

text \<open>Integers up to \<open>2 ^ 53\<close> are doubles.\<close>

lemma rnd_pos_of_int:
  assumes "0 < n" and "n \<le> 2 ^ 53"
  shows "rnd_pos (of_int n) = of_int n"
proof -
  let ?x = "of_int n :: rat"
  have x: "0 < ?x" "?x \<le> 2 ^ 53"
    using assms of_int_le_iff [of n "2 ^ 53", where ?'a = rat] by simp_all
  show ?thesis
  proof (cases "0 < ulp_exp ?x")
    case False
    then have "?x / 2 powi ulp_exp ?x = of_int (n * 2 ^ nat (- ulp_exp ?x))"
      by (simp add: power_int_def field_simps)
    then have "round_half_even (?x / 2 powi ulp_exp ?x) = n * 2 ^ nat (- ulp_exp ?x)"
      by (simp only: round_half_even_of_int)
    with False show ?thesis by (simp add: rnd_pos_def Let_def power_int_def field_simps)
  next
    case True
    then have "2 powi (ulp_exp ?x + 52) \<le> ?x" using ulp_exp_bounds(2) [OF x(1)] by auto
    moreover have "(2::rat) powi 53 \<le> 2 powi (ulp_exp ?x + 52)" using True by (intro powi_mono) simp
    moreover have "(2::rat) powi 53 = 2 ^ 53" by (simp add: power_int_def)
    ultimately have n: "?x = 2 ^ 53" using x(2) by linarith
    have "rnd_pos (2 ^ 53) = 2 ^ 53" by code_simp
    with n show ?thesis by simp
  qed
qed

lemma rnd_of_int: "\<bar>n\<bar> \<le> 2 ^ 53 \<Longrightarrow> rnd (of_int n) = of_int n"
  using rnd_pos_of_int [of n] rnd_pos_of_int [of "- n"] by (auto simp: rnd_def abs_le_iff)

text \<open>\<open>math.Round\<close>: to the nearest integer, halves away from zero (exact on doubles).\<close>

definition math_round :: "rat \<Rightarrow> rat" where
  "math_round x = (if x < 0 then - of_int \<lfloor>- x + 1 / 2\<rfloor> else of_int \<lfloor>x + 1 / 2\<rfloor>)"

lemma math_round_nonneg: "0 \<le> x \<Longrightarrow> 0 \<le> math_round x"
  by (simp add: math_round_def)

lemma math_round_mono: "0 \<le> x \<Longrightarrow> x \<le> y \<Longrightarrow> math_round x \<le> math_round y"
  by (auto simp: math_round_def intro!: floor_mono)

subsection \<open>Doubles with NaN and the infinities\<close>

datatype f64 = NaN | Inf bool | Fin rat

text \<open>\<open>Inf True\<close> is minus infinity.  Comparisons with NaN are false, as in Go.\<close>

fun f64_lt :: "f64 \<Rightarrow> f64 \<Rightarrow> bool" where
  "f64_lt NaN _ = False"
| "f64_lt _ NaN = False"
| "f64_lt (Fin x) (Fin y) = (x < y)"
| "f64_lt (Inf s) (Inf t) = (s \<and> \<not> t)"
| "f64_lt (Inf s) (Fin _) = s"
| "f64_lt (Fin _) (Inf t) = (\<not> t)"

fun f64_eq :: "f64 \<Rightarrow> f64 \<Rightarrow> bool" where
  "f64_eq NaN _ = False"
| "f64_eq _ NaN = False"
| "f64_eq (Fin x) (Fin y) = (x = y)"
| "f64_eq (Inf s) (Inf t) = (s = t)"
| "f64_eq (Inf _) (Fin _) = False"
| "f64_eq (Fin _) (Inf _) = False"

text \<open>The conversion \<open>float64(n)\<close> of an integer.\<close>

definition f64_of_int :: "int \<Rightarrow> f64" where
  "f64_of_int n = Fin (rnd (of_int n))"

subsection \<open>\<open>strconv.ParseFloat(s, 64)\<close>\<close>

text \<open>
  \<open>special\<close>: \<open>nan\<close>, \<open>inf\<close> and \<open>infinity\<close>, in any case, the last two with an optional
  sign.  The whole string has to match, since \<open>ParseFloat\<close> rejects a longer one.
\<close>

definition special_float :: "string \<Rightarrow> f64 option" where
  "special_float s =
     (let body = (\<lambda>r. map lower_byte r = ''inf'' \<or> map lower_byte r = ''infinity'')
      in case s of
           [] \<Rightarrow> None
         | c # r \<Rightarrow>
             if c = CHR ''+'' then (if body r then Some (Inf False) else None)
             else if c = CHR ''-'' then (if body r then Some (Inf True) else None)
             else if body s then Some (Inf False)
             else if map lower_byte s = ''nan'' then Some NaN
             else None)"

text \<open>
  \<open>underscoreOK\<close>: underscores only between digits, where a base prefix counts as a digit.
  The state is the kind of the previous character: \<open>True\<close> in \<open>dig\<close> after a digit,
  \<open>True\<close> in \<open>und\<close> after an underscore.
\<close>

definition is_hex_letter :: "char \<Rightarrow> bool" where
  "is_hex_letter c \<longleftrightarrow> CHR ''a'' \<le> lower_byte c \<and> lower_byte c \<le> CHR ''f''"

fun underscores_from :: "bool \<Rightarrow> bool \<Rightarrow> bool \<Rightarrow> string \<Rightarrow> bool" where
  "underscores_from hex dig und [] = (\<not> und)"
| "underscores_from hex dig und (c # cs) =
     (if is_digit c \<or> hex \<and> is_hex_letter c then underscores_from hex True False cs
      else if c = CHR ''_'' then dig \<and> underscores_from hex False True cs
      else \<not> und \<and> underscores_from hex False False cs)"

definition drop_sign :: "string \<Rightarrow> bool \<times> string" where
  "drop_sign s =
     (case s of
        [] \<Rightarrow> (False, s)
      | c # r \<Rightarrow> if c = CHR ''+'' then (False, r) else if c = CHR ''-'' then (True, r) else (False, s))"

definition underscore_ok :: "string \<Rightarrow> bool" where
  "underscore_ok s =
     (let s = snd (drop_sign s)
      in case s of
           z # p # r \<Rightarrow>
             if z = CHR ''0'' \<and> (lower_byte p = CHR ''b'' \<or> lower_byte p = CHR ''o'' \<or> lower_byte p = CHR ''x'')
             then underscores_from (lower_byte p = CHR ''x'') True False r
             else underscores_from False False False s
         | _ \<Rightarrow> underscores_from False False False s)"

text \<open>
  The mantissa loop of \<open>readFloat\<close>.  The state: a dot was seen, a digit was seen, the
  digits read so far as a number, how many of them stand after the dot, and whether an
  underscore was seen.  The loop stops at the first other character.
\<close>

record mant =
  saw_dot :: bool
  saw_digits :: bool
  mant_val :: int
  frac_digits :: nat
  underscores :: bool

definition hex_val :: "char \<Rightarrow> int" where
  "hex_val c = (if is_digit c then digit_val c else byte_val (lower_byte c) - 87)"

fun read_mant :: "nat \<Rightarrow> mant \<Rightarrow> string \<Rightarrow> mant \<times> string" where
  "read_mant base m [] = (m, [])"
| "read_mant base m (c # cs) =
     (if c = CHR ''_'' then read_mant base (m\<lparr>underscores := True\<rparr>) cs
      else if c = CHR ''.'' then
        (if saw_dot m then (m, c # cs) else read_mant base (m\<lparr>saw_dot := True\<rparr>) cs)
      else if is_digit c \<or> base = 16 \<and> is_hex_letter c then
        read_mant base
          (m\<lparr>saw_digits := True, mant_val := int base * mant_val m + hex_val c,
             frac_digits := frac_digits m + (if saw_dot m then 1 else 0)\<rparr>) cs
      else (m, c # cs))"

text \<open>The digits of the exponent, capped as in the source (\<open>if e < 10000\<close>).\<close>

fun read_exp :: "int \<Rightarrow> bool \<Rightarrow> string \<Rightarrow> int \<times> bool \<times> string" where
  "read_exp e und [] = (e, und, [])"
| "read_exp e und (c # cs) =
     (if c = CHR ''_'' then read_exp e True cs
      else if is_digit c then read_exp (if e < 10000 then e * 10 + digit_val c else e) und cs
      else (e, und, c # cs))"

definition read_exponent :: "char \<Rightarrow> bool \<Rightarrow> string \<Rightarrow> (int \<times> bool \<times> string) option" where
  "read_exponent exp_char hex s =
     (case s of
        c # r \<Rightarrow>
          if lower_byte c = exp_char then
            (let (neg, r') = drop_sign r
             in case r' of
                  [] \<Rightarrow> None
                | d # _ \<Rightarrow>
                    if is_digit d then
                      (let (e, und, r'') = read_exp 0 False r'
                       in Some (if neg then - e else e, und, r''))
                    else None)
          else if hex then None else Some (0, False, s)
      | [] \<Rightarrow> if hex then None else Some (0, False, s))"

text \<open>
  The largest double is below \<open>2 ^ 1024\<close>.  The code equation decides small values without
  computing the power.
\<close>

definition overflows :: "rat \<Rightarrow> bool" where
  "overflows v \<longleftrightarrow> 2 ^ 1024 \<le> v"

lemma overflows_code [code]: "overflows v \<longleftrightarrow> (if v < 18446744073709551616 then False else 2 ^ 1024 \<le> v)"
proof -
  have "(18446744073709551616 :: rat) = 2 ^ 64" by simp
  also have "\<dots> \<le> 2 ^ 1024" by (rule power_increasing) simp_all
  finally show ?thesis by (auto simp: overflows_def)
qed

text \<open>
  A well-formed number that overflows gives \<open>ErrRange\<close>, which the callers treat as any
  other error: \<open>None\<close>.
\<close>

definition parse_float :: "string \<Rightarrow> f64 option" where
  "parse_float s =
     (case special_float s of
        Some v \<Rightarrow> Some v
      | None \<Rightarrow>
          let (neg, r) = drop_sign s;
              hex = (case r of z # x # _ # _ \<Rightarrow> z = CHR ''0'' \<and> lower_byte x = CHR ''x'' | _ \<Rightarrow> False);
              base = (if hex then 16 else 10);
              (m, r1) = read_mant base
                 \<lparr>saw_dot = False, saw_digits = False, mant_val = 0, frac_digits = 0, underscores = False\<rparr>
                 (if hex then drop 2 r else r)
          in if \<not> saw_digits m then None
             else case read_exponent (if hex then CHR ''p'' else CHR ''e'') hex r1 of
                    None \<Rightarrow> None
                  | Some (e, und, r2) \<Rightarrow>
                      if r2 \<noteq> [] \<or> (underscores m \<or> und) \<and> \<not> underscore_ok s then None
                      else
                        let v = rnd (of_int (mant_val m) / of_nat base ^ frac_digits m *
                                     (if hex then 2 powi e else 10 powi e))
                        in if overflows v then None else Some (Fin (if neg then - v else v)))"

end
