(* ===== verification/Dsl_Parser.thy ===== *)
theory Dsl_Parser
  imports Dsl_Lexer Go_Float64
begin

text \<open>
  The recursive descent parser, \<open>internal/policy/dsl/parser.go\<close>.  The parser state of the
  source (\<open>tokens\<close>, \<open>pos\<close>) is the list of tokens not yet consumed; past the end \<open>cur\<close>
  answers an EOF token on line 0, as in the source.  Each function returns an error or the
  node with the remaining tokens.  The lemmas show that each function consumes, that the
  trees it builds have the shape the compiler expects, and that printing a tree and
  parsing it gives the tree back.
\<close>

subsection \<open>The syntax tree\<close>

text \<open>
  \<open>OtherNode\<close> stands for the values of the interface \<open>Node\<close> that are not conditions
  (a \<open>*PolicyNode\<close>, a \<open>*RuleNode\<close> or nil); the parser never puts one in a condition.
\<close>

datatype node =
    BinaryExprNode string node node
  | CompareNode string string string
  | NotInNode string "string list"
  | OtherNode

record rule_node =
  rn_name :: string
  rn_condition :: node
  rn_action :: string
  rn_reason :: string

record policy_node =
  pn_tenant_id :: string
  pn_rules :: "rule_node list"

datatype parse_error =
    LexError lex_error
  | ExpectedToken nat token_type token_type string
  | ExpectedTenant nat string
  | ExpectedActionValue nat token_type
  | ExpectedOperator nat string token_type
  | InvalidNumber nat string
  | ExpectedValue nat token_type string

type_synonym 'a parse_result = "parse_error + 'a \<times> token list"

subsection \<open>The parser\<close>

definition cur :: "token list \<Rightarrow> token" where
  "cur ts = (case ts of [] \<Rightarrow> mk_token TEOF [] 0 | t # _ \<Rightarrow> t)"

definition peek :: "token list \<Rightarrow> token" where
  "peek ts = (case ts of _ # t # _ \<Rightarrow> t | _ \<Rightarrow> mk_token TEOF [] 0)"

definition consume :: "token list \<Rightarrow> token \<times> token list" where
  "consume ts = (cur ts, drop 1 ts)"

definition expect :: "token_type \<Rightarrow> token list \<Rightarrow> token parse_result" where
  "expect tt ts =
     (let t = cur ts
      in if tok_type t \<noteq> tt then Inl (ExpectedToken (tok_line t) tt (tok_type t) (tok_literal t))
         else Inr (t, drop 1 ts))"

definition parse_value :: "token list \<Rightarrow> string parse_result" where
  "parse_value ts =
     (let t = cur ts
      in if tok_type t = TSTRING then Inr (tok_literal t, drop 1 ts)
         else if tok_type t = TNUMBER then
           (case parse_float (tok_literal t) of
              None \<Rightarrow> Inl (InvalidNumber (tok_line t) (tok_literal t))
            | Some _ \<Rightarrow> Inr (tok_literal t, drop 1 ts))
         else Inl (ExpectedValue (tok_line t) (tok_type t) (tok_literal t)))"

lemma expect_Inr:
  "expect tt ts = Inr (t, r) \<Longrightarrow> tt \<noteq> TEOF \<Longrightarrow> ts = t # r \<and> tok_type t = tt"
  by (cases ts) (auto simp: expect_def cur_def Let_def split: if_split_asm)

text \<open>The loop over the list of a \<open>NOT_IN\<close>: strings, each with an optional comma after it.\<close>

function not_in_values :: "token list \<Rightarrow> string list parse_result" where
  "not_in_values ts =
     (if tok_type (cur ts) \<noteq> TRBRACKET \<and> tok_type (cur ts) \<noteq> TEOF then
        (case expect TSTRING ts of
           Inl e \<Rightarrow> Inl e
         | Inr (v, ts1) \<Rightarrow>
             (case not_in_values (if tok_type (cur ts1) = TCOMMA then drop 1 ts1 else ts1) of
                Inl e \<Rightarrow> Inl e
              | Inr (vals, rest) \<Rightarrow> Inr (tok_literal v # vals, rest)))
      else Inr ([], ts))"
  by pat_completeness auto
termination
  by (relation "measure length") (auto dest!: expect_Inr)

declare not_in_values.simps [simp del]

definition parse_atom :: "token list \<Rightarrow> node parse_result" where
  "parse_atom ts =
     (case expect TIDENT ts of
        Inl e \<Rightarrow> Inl e
      | Inr (field, ts1) \<Rightarrow>
          (let t = cur ts1
           in if tok_type t = TGT \<or> tok_type t = TLT \<or> tok_type t = TEQ then
                (case parse_value (drop 1 ts1) of
                   Inl e \<Rightarrow> Inl e
                 | Inr (val, ts2) \<Rightarrow> Inr (CompareNode (tok_literal field) (tok_literal t) val, ts2))
              else if tok_type t = TNOT_IN then
                (case expect TLBRACKET (drop 1 ts1) of
                   Inl e \<Rightarrow> Inl e
                 | Inr (_, ts2) \<Rightarrow>
                     (case not_in_values ts2 of
                        Inl e \<Rightarrow> Inl e
                      | Inr (vals, ts3) \<Rightarrow>
                          (case expect TRBRACKET ts3 of
                             Inl e \<Rightarrow> Inl e
                           | Inr (_, ts4) \<Rightarrow> Inr (NotInNode (tok_literal field) vals, ts4))))
              else Inl (ExpectedOperator (tok_line t) (tok_literal field) (tok_type t))))"

subsection \<open>Consumption\<close>

lemma parse_value_suffix: "parse_value ts = Inr (v, r) \<Longrightarrow> suffix r ts"
  by (auto simp: parse_value_def Let_def suffix_drop split: if_split_asm option.split_asm)

lemma not_in_values_suffix: "not_in_values ts = Inr (vs, r) \<Longrightarrow> suffix r ts"
proof (induction ts arbitrary: vs r rule: not_in_values.induct)
  case (1 ts)
  show ?case
  proof (cases "tok_type (cur ts) \<noteq> TRBRACKET \<and> tok_type (cur ts) \<noteq> TEOF")
    case False
    with "1.prems" show ?thesis by (simp add: not_in_values.simps [of ts] split: if_split_asm)
  next
    case True
    with "1.prems" obtain v ts1 vals where *: "expect TSTRING ts = Inr (v, ts1)"
      "not_in_values (if tok_type (cur ts1) = TCOMMA then drop 1 ts1 else ts1) = Inr (vals, r)"
      by (auto simp: not_in_values.simps [of ts] split: sum.split_asm)
    then have "suffix r (if tok_type (cur ts1) = TCOMMA then drop 1 ts1 else ts1)"
      using "1.IH" [OF True *(1)] by simp
    moreover have "suffix ts1 ts" using expect_Inr [OF *(1)] by (auto intro: suffix_ConsI2)
    ultimately show ?thesis
      by (auto split: if_split_asm intro: suffix_order.trans dest: suffix_dropD)
  qed
qed

lemma parse_atom_suffix:
  assumes "parse_atom ts = Inr (n, r)"
  shows "\<exists>t us. ts = t # us \<and> suffix r us"
proof -
  from assms obtain field ts1 where f: "expect TIDENT ts = Inr (field, ts1)"
    by (auto simp: parse_atom_def split: sum.split_asm)
  then have ts: "ts = field # ts1" by (auto dest!: expect_Inr)
  have "suffix r (drop 1 ts1)" (is "suffix r ?d")
    using assms f
    by (auto simp: parse_atom_def Let_def split: if_split_asm sum.split_asm
        dest!: parse_value_suffix not_in_values_suffix expect_Inr
        intro: suffix_ConsI2 suffix_order.trans)
      (metis suffix_ConsI2 suffix_order.trans suffix_order.refl suffix_ConsD)+
  then have "suffix r ts1" by (meson suffix_drop suffix_order.trans)
  with ts show ?thesis by blast
qed

lemma parse_atom_length: "parse_atom ts = Inr (n, r) \<Longrightarrow> length r < length ts"
  by (auto dest!: parse_atom_suffix suffix_length_less)

subsection \<open>Conditions, rules, policies\<close>

text \<open>The loop of \<open>parseCondition\<close>: the tree built so far becomes the left operand.\<close>

function condition_rest :: "node \<Rightarrow> token list \<Rightarrow> node parse_result" where
  "condition_rest left ts =
     (if tok_type (cur ts) = TAND \<or> tok_type (cur ts) = TOR then
        (case parse_atom (drop 1 ts) of
           Inl e \<Rightarrow> Inl e
         | Inr (right, ts1) \<Rightarrow> condition_rest (BinaryExprNode (tok_literal (cur ts)) left right) ts1)
      else Inr (left, ts))"
  by pat_completeness auto
termination
  by (relation "measure (\<lambda>(n, ts). length ts)") (fastforce dest!: parse_atom_length)+

declare condition_rest.simps [simp del]

definition parse_condition :: "token list \<Rightarrow> node parse_result" where
  "parse_condition ts =
     (case parse_atom ts of Inl e \<Rightarrow> Inl e | Inr (left, ts1) \<Rightarrow> condition_rest left ts1)"

definition parse_rule :: "token list \<Rightarrow> rule_node parse_result" where
  "parse_rule ts =
     (case expect TRULE ts of Inl e \<Rightarrow> Inl e | Inr (_, ts1) \<Rightarrow>
      (case expect TIDENT ts1 of Inl e \<Rightarrow> Inl e | Inr (name, ts2) \<Rightarrow>
       (case expect TLBRACE ts2 of Inl e \<Rightarrow> Inl e | Inr (_, ts3) \<Rightarrow>
        (case expect TWHEN ts3 of Inl e \<Rightarrow> Inl e | Inr (_, ts4) \<Rightarrow>
         (case parse_condition ts4 of Inl e \<Rightarrow> Inl e | Inr (cond, ts5) \<Rightarrow>
          (case expect TACTION ts5 of Inl e \<Rightarrow> Inl e | Inr (_, ts6) \<Rightarrow>
           (let (action_tok, ts7) = consume ts6
            in if tok_type action_tok \<noteq> TIDENT
               then Inl (ExpectedActionValue (tok_line action_tok) (tok_type action_tok))
               else
                (case expect TREASON ts7 of Inl e \<Rightarrow> Inl e | Inr (_, ts8) \<Rightarrow>
                 (case expect TSTRING ts8 of Inl e \<Rightarrow> Inl e | Inr (reason_tok, ts9) \<Rightarrow>
                  (case expect TRBRACE ts9 of Inl e \<Rightarrow> Inl e | Inr (_, ts10) \<Rightarrow>
                    Inr (\<lparr>rn_name = tok_literal name, rn_condition = cond,
                          rn_action = tok_literal action_tok, rn_reason = tok_literal reason_tok\<rparr>,
                         ts10)))))))))))"

lemma condition_rest_suffix: "condition_rest l ts = Inr (n, r) \<Longrightarrow> suffix r ts"
proof (induction l ts arbitrary: n r rule: condition_rest.induct)
  case (1 l ts)
  show ?case
  proof (cases "tok_type (cur ts) = TAND \<or> tok_type (cur ts) = TOR")
    case False
    with "1.prems" show ?thesis by (simp add: condition_rest.simps [of l ts] split: if_split_asm)
  next
    case True
    with "1.prems" obtain right ts1 where *: "parse_atom (drop 1 ts) = Inr (right, ts1)"
      "condition_rest (BinaryExprNode (tok_literal (cur ts)) l right) ts1 = Inr (n, r)"
      by (auto simp: condition_rest.simps [of l ts] split: sum.split_asm)
    then have "suffix r ts1" using "1.IH" [OF True *(1)] by simp
    moreover have "suffix ts1 (drop 1 ts)"
      using parse_atom_suffix [OF *(1)] by (auto intro: suffix_ConsI2)
    ultimately show ?thesis by (meson suffix_dropD suffix_order.trans)
  qed
qed

lemma parse_condition_suffix: "parse_condition ts = Inr (n, r) \<Longrightarrow> suffix r ts"
  by (auto simp: parse_condition_def split: sum.split_asm
      dest!: parse_atom_suffix condition_rest_suffix intro: suffix_ConsI2 suffix_order.trans)

text \<open>What a successful \<open>parseRule\<close> has read, token by token.\<close>

lemma parse_rule_Inr:
  assumes "parse_rule ts = Inr (rule, r)"
  obtains k name b w ts4 cond a action_tok k2 reason_tok e ts5 where
    "ts = k # name # b # w # ts4" "tok_type k = TRULE" "tok_type name = TIDENT"
    "tok_type b = TLBRACE" "tok_type w = TWHEN"
    "parse_condition ts4 = Inr (cond, ts5)"
    "ts5 = a # action_tok # k2 # reason_tok # e # r" "tok_type a = TACTION"
    "tok_type action_tok = TIDENT" "tok_type k2 = TREASON" "tok_type reason_tok = TSTRING"
    "tok_type e = TRBRACE"
    "rule = \<lparr>rn_name = tok_literal name, rn_condition = cond,
             rn_action = tok_literal action_tok, rn_reason = tok_literal reason_tok\<rparr>"
proof -
  from assms obtain k ts1 name ts2 b ts3 w ts4 cond ts5 a ts6 where 1:
    "expect TRULE ts = Inr (k, ts1)" "expect TIDENT ts1 = Inr (name, ts2)"
    "expect TLBRACE ts2 = Inr (b, ts3)" "expect TWHEN ts3 = Inr (w, ts4)"
    "parse_condition ts4 = Inr (cond, ts5)" "expect TACTION ts5 = Inr (a, ts6)"
    by (auto simp: parse_rule_def split: sum.split_asm)
  with assms obtain k2 ts8 reason_tok ts9 e where 2:
    "tok_type (cur ts6) = TIDENT" "expect TREASON (drop 1 ts6) = Inr (k2, ts8)"
    "expect TSTRING ts8 = Inr (reason_tok, ts9)" "expect TRBRACE ts9 = Inr (e, r)"
    "rule = \<lparr>rn_name = tok_literal name, rn_condition = cond,
             rn_action = tok_literal (cur ts6), rn_reason = tok_literal reason_tok\<rparr>"
    by (auto simp: parse_rule_def consume_def split: sum.split_asm if_split_asm)
  from 2(1) have "ts6 = cur ts6 # drop 1 ts6" by (cases ts6) (auto simp: cur_def)
  with 1 2 show ?thesis
    by (intro that [of k name b w ts4 cond ts5 a "cur ts6" k2 reason_tok e])
      (auto dest!: expect_Inr)
qed

lemma parse_rule_suffix:
  assumes "parse_rule ts = Inr (rule, r)"
  shows "length r < length ts \<and> suffix r ts"
  using assms
proof (rule parse_rule_Inr)
  fix k name b w ts4 cond a action_tok k2 reason_tok e ts5
  assume ts: "ts = k # name # b # w # ts4" and "parse_condition ts4 = Inr (cond, ts5)"
    and ts5: "ts5 = a # action_tok # k2 # reason_tok # e # r"
  then have "suffix ts5 ts4" by (blast dest: parse_condition_suffix)
  with ts ts5 show ?thesis
    by (auto simp: suffix_def)
qed

text \<open>The loop of \<open>parsePolicy\<close> over the rules.\<close>

function parse_rules :: "token list \<Rightarrow> rule_node list parse_result" where
  "parse_rules ts =
     (if tok_type (cur ts) = TRULE then
        (case parse_rule ts of
           Inl e \<Rightarrow> Inl e
         | Inr (rule, ts1) \<Rightarrow>
             (case parse_rules ts1 of
                Inl e \<Rightarrow> Inl e
              | Inr (rules, rest) \<Rightarrow> Inr (rule # rules, rest)))
      else Inr ([], ts))"
  by pat_completeness auto
termination
  by (relation "measure length") (auto dest!: parse_rule_suffix)

declare parse_rules.simps [simp del]

definition parse_policy :: "token list \<Rightarrow> policy_node parse_result" where
  "parse_policy ts =
     (case expect TPOLICY ts of Inl e \<Rightarrow> Inl e | Inr (_, ts1) \<Rightarrow>
      (let tenant_kw = cur ts1
       in if tok_type tenant_kw \<noteq> TIDENT \<or> tok_literal tenant_kw \<noteq> ''tenant''
          then Inl (ExpectedTenant (tok_line tenant_kw) (tok_literal tenant_kw))
          else
           (case expect TCOLON (drop 1 ts1) of Inl e \<Rightarrow> Inl e | Inr (_, ts2) \<Rightarrow>
            (case expect TIDENT ts2 of Inl e \<Rightarrow> Inl e | Inr (tenant_id, ts3) \<Rightarrow>
             (case expect TLBRACE ts3 of Inl e \<Rightarrow> Inl e | Inr (_, ts4) \<Rightarrow>
              (case parse_rules ts4 of Inl e \<Rightarrow> Inl e | Inr (rules, ts5) \<Rightarrow>
               (case expect TRBRACE ts5 of Inl e \<Rightarrow> Inl e | Inr (_, ts6) \<Rightarrow>
                 Inr (\<lparr>pn_tenant_id = tok_literal tenant_id, pn_rules = rules\<rparr>, ts6))))))))"

text \<open>\<open>Parse\<close>: the tokens left after the policy are not looked at.\<close>

definition Parse :: "string \<Rightarrow> parse_error + policy_node" where
  "Parse src =
     (case Lex src of
        Inl e \<Rightarrow> Inl (LexError e)
      | Inr tokens \<Rightarrow> map_sum id fst (parse_policy tokens))"

subsection \<open>Well-formed trees and their text\<close>

text \<open>
  \<open>wf_condition\<close> is the shape of the conditions the parser builds: operators the compiler
  knows, and chains of \<open>AND\<close> and \<open>OR\<close> that lean to the left without precedence.
\<close>

fun is_atom :: "node \<Rightarrow> bool" where
  "is_atom (CompareNode _ _ _) = True"
| "is_atom (NotInNode _ _) = True"
| "is_atom _ = False"

fun wf_condition :: "node \<Rightarrow> bool" where
  "wf_condition (BinaryExprNode op l r) \<longleftrightarrow>
     op \<in> {''AND'', ''OR''} \<and> wf_condition l \<and> is_atom r \<and> wf_condition r"
| "wf_condition (CompareNode f op v) \<longleftrightarrow>
     is_ident f \<and> op \<in> {''>'', ''<'', ''==''} \<and> is_string_body v"
| "wf_condition (NotInNode f vs) \<longleftrightarrow> is_ident f \<and> list_all is_string_body vs"
| "wf_condition OtherNode \<longleftrightarrow> False"

definition wf_rule :: "rule_node \<Rightarrow> bool" where
  "wf_rule r \<longleftrightarrow>
     is_ident (rn_name r) \<and> wf_condition (rn_condition r) \<and> is_ident (rn_action r) \<and>
     is_string_body (rn_reason r)"

definition wf_policy :: "policy_node \<Rightarrow> bool" where
  "wf_policy p \<longleftrightarrow> is_ident (pn_tenant_id p) \<and> list_all wf_rule (pn_rules p)"

text \<open>The printer: a value that reads as a number is written as one, any other in quotes.\<close>

definition value_lexeme :: "string \<Rightarrow> lexeme" where
  "value_lexeme v = (if is_number_text v \<and> parse_float v \<noteq> None then (TNUMBER, v) else (TSTRING, v))"

definition compare_type :: "string \<Rightarrow> token_type" where
  "compare_type op = (if op = ''>'' then TGT else if op = ''<'' then TLT else TEQ)"

fun values_lexemes :: "string list \<Rightarrow> lexeme list" where
  "values_lexemes [] = []"
| "values_lexemes [v] = [(TSTRING, v)]"
| "values_lexemes (v # vs) = (TSTRING, v) # (TCOMMA, '','') # values_lexemes vs"

fun condition_lexemes :: "node \<Rightarrow> lexeme list" where
  "condition_lexemes (BinaryExprNode op l r) =
     condition_lexemes l @ [(if op = ''AND'' then TAND else TOR, op)] @ condition_lexemes r"
| "condition_lexemes (CompareNode f op v) = [(TIDENT, f), (compare_type op, op), value_lexeme v]"
| "condition_lexemes (NotInNode f vs) =
     [(TIDENT, f), (TNOT_IN, ''NOT_IN''), (TLBRACKET, ''['')] @ values_lexemes vs @ [(TRBRACKET, '']'')]"
| "condition_lexemes OtherNode = []"

definition rule_lexemes :: "rule_node \<Rightarrow> lexeme list" where
  "rule_lexemes r =
     [(TRULE, ''rule''), (TIDENT, rn_name r), (TLBRACE, ''{''), (TWHEN, ''when'')] @
     condition_lexemes (rn_condition r) @
     [(TACTION, ''action''), (TIDENT, rn_action r), (TREASON, ''reason''), (TSTRING, rn_reason r),
      (TRBRACE, ''}'')]"

definition policy_lexemes :: "policy_node \<Rightarrow> lexeme list" where
  "policy_lexemes p =
     [(TPOLICY, ''policy''), (TIDENT, ''tenant''), (TCOLON, '':''), (TIDENT, pn_tenant_id p),
      (TLBRACE, ''{'')] @ concat (map rule_lexemes (pn_rules p)) @ [(TRBRACE, ''}'')]"

definition print_policy :: "policy_node \<Rightarrow> string" where
  "print_policy p = render (policy_lexemes p)"

subsection \<open>Printing then parsing\<close>

definition toks :: "nat \<Rightarrow> lexeme list \<Rightarrow> token list" where
  "toks n ls = map (\<lambda>(t, l). mk_token t l n) ls"

lemma toks_simps [simp]:
  "toks n [] = []" "toks n ((t, l) # ls) = mk_token t l n # toks n ls"
  "toks n (ls @ ms) = toks n ls @ toks n ms"
  by (simp_all add: toks_def)

lemma cur_Cons [simp]: "cur (t # ts) = t"
  by (simp add: cur_def)

lemma expect_Cons [simp]:
  "expect tt (t # ts) =
     (if tok_type t = tt then Inr (t, ts)
      else Inl (ExpectedToken (tok_line t) tt (tok_type t) (tok_literal t)))"
  by (simp add: expect_def Let_def)

lemma parse_value_toks:
  "parse_value (toks n [value_lexeme v] @ rest) = Inr (v, rest)"
  by (auto simp: value_lexeme_def parse_value_def Let_def)

lemma not_in_values_toks:
  assumes "tok_type (cur rest) = TRBRACKET"
  shows "not_in_values (toks n (values_lexemes vs) @ rest) = Inr (vs, rest)"
proof (induction vs rule: values_lexemes.induct)
  case 1
  from assms show ?case by (simp add: not_in_values.simps [of rest])
next
  case (2 v)
  from assms show ?case
    by (subst not_in_values.simps) (simp add: not_in_values.simps [of rest])
next
  case (3 v w vs)
  then show ?case by (subst not_in_values.simps) simp
qed

lemma parse_atom_toks:
  assumes "is_atom c" and "wf_condition c"
  shows "parse_atom (toks n (condition_lexemes c) @ rest) = Inr (c, rest)"
proof (cases c)
  case (CompareNode f op v)
  have *: "parse_value (toks n [value_lexeme v] @ rest) = Inr (v, rest)" by (rule parse_value_toks)
  obtain t l where tl: "value_lexeme v = (t, l)" by fastforce
  with * CompareNode assms show ?thesis
    by (auto simp: parse_atom_def compare_type_def Let_def)
next
  case (NotInNode f vs)
  then show ?thesis
    using not_in_values_toks [of "mk_token TRBRACKET '']'' n # rest" n vs]
    by (simp add: parse_atom_def Let_def)
qed (use assms in simp_all)

text \<open>Parsing a printed condition is the loop, started with that condition as left operand.\<close>

lemma parse_condition_toks:
  "wf_condition c \<Longrightarrow> parse_condition (toks n (condition_lexemes c) @ rest) = condition_rest c rest"
proof (induction c arbitrary: rest)
  case (BinaryExprNode op l r)
  then have r: "is_atom r" "wf_condition r" and l: "wf_condition l" and op: "op = ''AND'' \<or> op = ''OR''"
    by auto
  from op have "condition_rest l (mk_token (if op = ''AND'' then TAND else TOR) op n #
      toks n (condition_lexemes r) @ rest) = condition_rest (BinaryExprNode op l r) rest"
    by (subst condition_rest.simps) (auto simp: parse_atom_toks [OF r])
  with BinaryExprNode.IH(1) [OF l] show ?case by simp
qed (simp_all only: parse_condition_def, simp_all only: parse_atom_toks is_atom.simps sum.case prod.case,
  simp_all)

lemma parse_rule_toks:
  assumes "wf_rule r"
  shows "parse_rule (toks n (rule_lexemes r) @ rest) = Inr (r, rest)"
proof -
  define tail where "tail = mk_token TACTION ''action'' n # mk_token TIDENT (rn_action r) n #
    mk_token TREASON ''reason'' n # mk_token TSTRING (rn_reason r) n # mk_token TRBRACE ''}'' n # rest"
  have "condition_rest (rn_condition r) tail = Inr (rn_condition r, tail)"
    by (subst condition_rest.simps) (simp add: tail_def)
  with assms have cond: "parse_condition (toks n (condition_lexemes (rn_condition r)) @ tail) =
      Inr (rn_condition r, tail)"
    by (simp add: parse_condition_toks wf_rule_def)
  have ts: "toks n (rule_lexemes r) @ rest = mk_token TRULE ''rule'' n # mk_token TIDENT (rn_name r) n #
      mk_token TLBRACE ''{'' n # mk_token TWHEN ''when'' n # toks n (condition_lexemes (rn_condition r)) @ tail"
    by (simp add: rule_lexemes_def tail_def)
  show ?thesis
    unfolding ts parse_rule_def by (simp add: cond) (simp add: tail_def consume_def)
qed

lemma parse_rules_toks:
  assumes "list_all wf_rule rs" and "tok_type (cur rest) \<noteq> TRULE"
  shows "parse_rules (toks n (concat (map rule_lexemes rs)) @ rest) = Inr (rs, rest)"
  using assms(1)
proof (induction rs)
  case Nil
  from assms(2) show ?case by (simp add: parse_rules.simps [of rest])
next
  case (Cons r rs)
  have "tok_type (cur (toks n (rule_lexemes r) @ ts)) = TRULE" for ts by (simp add: rule_lexemes_def)
  with Cons parse_rule_toks [of r n] show ?case by (subst parse_rules.simps) simp
qed

lemma parse_policy_toks:
  assumes "wf_policy p"
  shows "parse_policy (toks n (policy_lexemes p) @ rest) = Inr (p, rest)"
  using assms parse_rules_toks [of "pn_rules p" "mk_token TRBRACE ''}'' n # rest" n]
  by (simp add: parse_policy_def policy_lexemes_def wf_policy_def Let_def)

text \<open>The lexemes of a well-formed tree are well formed.\<close>

lemma wf_value_lexeme: "is_string_body v \<Longrightarrow> wf_lexeme (value_lexeme v)"
  by (simp add: value_lexeme_def)

lemma wf_values_lexemes:
  "list_all is_string_body vs \<Longrightarrow> \<forall>t \<in> set (values_lexemes vs). wf_lexeme t"
  by (induction vs rule: values_lexemes.induct) (auto simp: fixed_text_def)

lemma wf_condition_lexemes:
  "wf_condition c \<Longrightarrow> \<forall>t \<in> set (condition_lexemes c). wf_lexeme t"
proof (induction c)
  case (CompareNode f op v)
  then show ?case by (auto simp: compare_type_def fixed_text_def wf_value_lexeme)
next
  case (NotInNode f vs)
  then show ?case using wf_values_lexemes [of vs] by (auto simp: fixed_text_def)
qed (auto simp: fixed_text_def)

lemma wf_policy_lexemes: "wf_policy p \<Longrightarrow> \<forall>t \<in> set (policy_lexemes p). wf_lexeme t"
  using wf_condition_lexemes
  by (auto simp: wf_policy_def policy_lexemes_def rule_lexemes_def wf_rule_def list_all_iff
      fixed_text_def is_ident_def keyword_def byte_defs)

subsection \<open>Parsing builds well-formed trees\<close>

definition tokens_ok :: "token list \<Rightarrow> bool" where
  "tokens_ok ts \<longleftrightarrow> (\<forall>t \<in> set ts. tok_type t \<noteq> TEOF \<longrightarrow> wf_lexeme (lexeme_of t))"

lemma tokens_ok_Cons [simp]:
  "tokens_ok (t # ts) \<longleftrightarrow> (tok_type t \<noteq> TEOF \<longrightarrow> wf_lexeme (lexeme_of t)) \<and> tokens_ok ts"
  by (auto simp: tokens_ok_def)

lemma tokens_ok_suffix: "suffix r ts \<Longrightarrow> tokens_ok ts \<Longrightarrow> tokens_ok r"
  by (auto simp: tokens_ok_def suffix_def)

lemma tokens_ok_drop: "tokens_ok ts \<Longrightarrow> tokens_ok (drop n ts)"
  by (auto simp: tokens_ok_def dest: in_set_dropD)

lemma tokens_ok_cur: "tokens_ok ts \<Longrightarrow> tok_type (cur ts) \<noteq> TEOF \<Longrightarrow> wf_lexeme (lexeme_of (cur ts))"
  by (cases ts) (auto simp: cur_def)

lemma tokens_ok_types:
  assumes "tokens_ok ts"
  shows "tok_type (cur ts) = TIDENT \<Longrightarrow> is_ident (tok_literal (cur ts))"
    and "tok_type (cur ts) = TSTRING \<Longrightarrow> is_string_body (tok_literal (cur ts))"
    and "tok_type (cur ts) = TNUMBER \<Longrightarrow> is_number_text (tok_literal (cur ts))"
    and "tok_type (cur ts) \<notin> {TIDENT, TSTRING, TNUMBER, TEOF} \<Longrightarrow>
      fixed_text (tok_type (cur ts)) = Some (tok_literal (cur ts))"
  using tokens_ok_cur [OF assms]
  by (auto simp: lexeme_of_def) (cases "tok_type (cur ts)"; simp)

lemma expect_ok:
  assumes "expect tt ts = Inr (t, r)" and "tt \<noteq> TEOF" and "tokens_ok ts"
  shows "tokens_ok r \<and> tok_type t = tt \<and> wf_lexeme (tt, tok_literal t)"
  using expect_Inr [OF assms(1,2)] assms(2,3) by (auto simp: lexeme_of_def)

lemma is_number_text_body: "is_number_text v \<Longrightarrow> is_string_body v"
proof -
  have "is_number_char c \<Longrightarrow> c \<noteq> DQUOTE \<and> c \<noteq> NL" for c by (auto simp: byte_defs)
  then show "is_number_text v \<Longrightarrow> is_string_body v"
    by (cases v) (auto simp: is_number_text_def is_string_body_def peek_byte_def list_all_iff
        is_number_char_def split: if_split_asm list.split_asm)
qed

lemma parse_value_ok: "parse_value ts = Inr (v, r) \<Longrightarrow> tokens_ok ts \<Longrightarrow> is_string_body v"
  by (auto simp: parse_value_def Let_def tokens_ok_types is_number_text_body
      split: if_split_asm option.split_asm)

lemma not_in_values_ok:
  "not_in_values ts = Inr (vs, r) \<Longrightarrow> tokens_ok ts \<Longrightarrow> list_all is_string_body vs"
proof (induction ts arbitrary: vs r rule: not_in_values.induct)
  case (1 ts)
  show ?case
  proof (cases "tok_type (cur ts) \<noteq> TRBRACKET \<and> tok_type (cur ts) \<noteq> TEOF")
    case False
    with "1.prems" show ?thesis by (auto simp: not_in_values.simps [of ts] split: if_split_asm)
  next
    case True
    with "1.prems" obtain v ts1 vals where *: "expect TSTRING ts = Inr (v, ts1)"
      "not_in_values (if tok_type (cur ts1) = TCOMMA then drop 1 ts1 else ts1) = Inr (vals, r)"
      "vs = tok_literal v # vals"
      by (auto simp: not_in_values.simps [of ts] split: sum.split_asm)
    have v: "tokens_ok ts1" "is_string_body (tok_literal v)"
      using expect_ok [OF *(1)] "1.prems"(2) by auto
    then have "tokens_ok (if tok_type (cur ts1) = TCOMMA then drop 1 ts1 else ts1)"
      using tokens_ok_drop [of ts1 1] by simp
    with "1.IH" [OF True *(1)] *(2) have "list_all is_string_body vals" by simp
    with *(3) v(2) show ?thesis by simp
  qed
qed

lemma fixed_text_compare:
  "fixed_text t = Some l \<Longrightarrow> t = TGT \<or> t = TLT \<or> t = TEQ \<Longrightarrow> l \<in> {''>'', ''<'', ''==''}"
  by (auto simp: fixed_text_def)

lemma parse_atom_ok:
  assumes "parse_atom ts = Inr (c, r)" and "tokens_ok ts"
  shows "is_atom c \<and> wf_condition c \<and> tokens_ok r"
proof -
  obtain t us where "ts = t # us" "suffix r us" using parse_atom_suffix [OF assms(1)] by blast
  with assms(2) have r: "tokens_ok r" by (auto intro: tokens_ok_suffix)
  obtain field ts1 where f: "expect TIDENT ts = Inr (field, ts1)"
    using assms(1) by (auto simp: parse_atom_def split: sum.split_asm)
  then have field: "is_ident (tok_literal field)" and ts1: "tokens_ok ts1"
    using expect_ok [OF f] assms(2) by auto
  let ?t = "cur ts1"
  show ?thesis
  proof (cases "tok_type ?t = TGT \<or> tok_type ?t = TLT \<or> tok_type ?t = TEQ")
    case True
    with assms(1) f obtain v where c: "c = CompareNode (tok_literal field) (tok_literal ?t) v"
      and v: "parse_value (drop 1 ts1) = Inr (v, r)"
      by (auto simp: parse_atom_def Let_def split: sum.split_asm)
    have "fixed_text (tok_type ?t) = Some (tok_literal ?t)"
      using tokens_ok_types(4) [OF ts1] True by auto
    with True have "tok_literal ?t \<in> {''>'', ''<'', ''==''}" by (rule fixed_text_compare [rotated])
    moreover have "is_string_body v" using parse_value_ok [OF v] ts1 by (simp add: tokens_ok_drop)
    ultimately show ?thesis using c field r by simp
  next
    case False
    with assms(1) f obtain b ts2 vals e where "c = NotInNode (tok_literal field) vals"
      and "expect TLBRACKET (drop 1 ts1) = Inr (b, ts2)" and "not_in_values ts2 = Inr (vals, e)"
      by (auto simp: parse_atom_def Let_def split: if_split_asm sum.split_asm)
    moreover from this have "tokens_ok ts2"
      using expect_ok [of TLBRACKET "drop 1 ts1" b ts2] ts1 by (simp add: tokens_ok_drop)
    ultimately show ?thesis using field r not_in_values_ok by auto
  qed
qed

lemma condition_rest_ok:
  "condition_rest l ts = Inr (c, r) \<Longrightarrow> wf_condition l \<Longrightarrow> tokens_ok ts \<Longrightarrow> wf_condition c"
proof (induction l ts arbitrary: c r rule: condition_rest.induct)
  case (1 l ts)
  show ?case
  proof (cases "tok_type (cur ts) = TAND \<or> tok_type (cur ts) = TOR")
    case False
    with "1.prems" show ?thesis by (simp add: condition_rest.simps [of l ts] split: if_split_asm)
  next
    case True
    with "1.prems" obtain right ts1 where *: "parse_atom (drop 1 ts) = Inr (right, ts1)"
      "condition_rest (BinaryExprNode (tok_literal (cur ts)) l right) ts1 = Inr (c, r)"
      by (auto simp: condition_rest.simps [of l ts] split: sum.split_asm)
    have right: "is_atom right" "wf_condition right" "tokens_ok ts1"
      using parse_atom_ok [OF *(1)] "1.prems"(3) by (auto simp: tokens_ok_drop)
    have "fixed_text (tok_type (cur ts)) = Some (tok_literal (cur ts))"
      using tokens_ok_types(4) [OF "1.prems"(3)] True by auto
    with True have "tok_literal (cur ts) \<in> {''AND'', ''OR''}" by (auto simp: fixed_text_def)
    with right "1.prems"(2) *(2) show ?thesis
      by (intro "1.IH" [OF True *(1) refl *(2)]) simp_all
  qed
qed

lemma parse_condition_ok:
  "parse_condition ts = Inr (c, r) \<Longrightarrow> tokens_ok ts \<Longrightarrow> wf_condition c"
  by (auto simp: parse_condition_def split: sum.split_asm dest: parse_atom_ok condition_rest_ok)

lemma parse_rule_ok:
  assumes "parse_rule ts = Inr (rule, r)" and "tokens_ok ts"
  shows "wf_rule rule \<and> tokens_ok r"
  using assms(1)
proof (rule parse_rule_Inr)
  fix k name b w ts4 cond a action_tok k2 reason_tok e ts5
  assume ts: "ts = k # name # b # w # ts4" and name: "tok_type name = TIDENT"
    and c: "parse_condition ts4 = Inr (cond, ts5)"
    and ts5: "ts5 = a # action_tok # k2 # reason_tok # e # r"
    and types: "tok_type action_tok = TIDENT" "tok_type reason_tok = TSTRING"
    and rule: "rule = \<lparr>rn_name = tok_literal name, rn_condition = cond,
             rn_action = tok_literal action_tok, rn_reason = tok_literal reason_tok\<rparr>"
  from ts assms(2) have ts4: "tokens_ok ts4" by simp
  with parse_condition_suffix [OF c] have "tokens_ok ts5" by (rule tokens_ok_suffix)
  with ts assms(2) name ts5 types parse_condition_ok [OF c ts4] rule show ?thesis
    by (simp add: wf_rule_def lexeme_of_def)
qed

lemma parse_rules_ok:
  "parse_rules ts = Inr (rs, r) \<Longrightarrow> tokens_ok ts \<Longrightarrow> list_all wf_rule rs"
proof (induction ts arbitrary: rs r rule: parse_rules.induct)
  case (1 ts)
  show ?case
  proof (cases "tok_type (cur ts) = TRULE")
    case False
    with "1.prems" show ?thesis by (auto simp: parse_rules.simps [of ts])
  next
    case True
    with "1.prems" obtain rule ts1 rs' where *: "parse_rule ts = Inr (rule, ts1)"
      "parse_rules ts1 = Inr (rs', r)" "rs = rule # rs'"
      by (auto simp: parse_rules.simps [of ts] split: sum.split_asm)
    with parse_rule_ok [OF *(1) "1.prems"(2)] "1.IH" [OF True *(1)] show ?thesis by auto
  qed
qed

lemma parse_policy_ok:
  assumes "parse_policy ts = Inr (p, r)" and "tokens_ok ts"
  shows "wf_policy p"
proof -
  from assms(1) obtain k ts1 c ts2 t ts3 b ts4 rules ts5 e where
    "expect TPOLICY ts = Inr (k, ts1)" "expect TCOLON (drop 1 ts1) = Inr (c, ts2)"
    "expect TIDENT ts2 = Inr (t, ts3)" "expect TLBRACE ts3 = Inr (b, ts4)"
    "parse_rules ts4 = Inr (rules, ts5)" "p = \<lparr>pn_tenant_id = tok_literal t, pn_rules = rules\<rparr>"
    by (auto simp: parse_policy_def Let_def split: sum.split_asm if_split_asm)
  with assms(2) show ?thesis
    by (auto simp: wf_policy_def dest!: expect_ok parse_rules_ok intro: tokens_ok_drop)
qed

lemma Lex_tokens_ok: "Lex src = Inr ts \<Longrightarrow> tokens_ok ts"
  unfolding Lex_def tokens_ok_def by (blast dest: lex_run_wf)

subsection \<open>Properties\<close>

lemma map_sum_eq_Inr: "map_sum id f r = Inr x \<longleftrightarrow> (\<exists>y. r = Inr y \<and> x = f y)"
  by (cases r) auto

lemma toks_map: "map (\<lambda>(t, l). mk_token t l n) ls = toks n ls"
  by (simp add: toks_def)

lemma Parse_print_append:
  "wf_policy p \<Longrightarrow>
   Parse (print_policy p @ rest) = (case Lex rest of Inl e \<Rightarrow> Inl (LexError e) | Inr _ \<Rightarrow> Inr p)"
  using lex_run_render_append [OF wf_policy_lexemes, of p rest 1] parse_policy_toks [of p 1]
  by (simp add: Parse_def print_policy_def Lex_def toks_map split: sum.split)

lemma Parse_print: "wf_policy p \<Longrightarrow> Parse (print_policy p) = Inr p"
  using Parse_print_append [of p "[]"] by (simp add: Lex_def lex_run_Nil)

lemma Parse_wf: "Parse src = Inr p \<Longrightarrow> wf_policy p"
  by (cases "Lex src")
    (auto simp: Parse_def map_sum_eq_Inr parse_policy_ok Lex_tokens_ok)

text \<open>A policy with both kinds of atoms and both operators, for the witnesses.\<close>

definition sample_policy :: policy_node where
  "sample_policy =
     \<lparr>pn_tenant_id = ''acme-corp'',
      pn_rules = [\<lparr>rn_name = ''r1'',
         rn_condition = BinaryExprNode ''AND''
           (BinaryExprNode ''OR'' (CompareNode ''input.risk_score'' ''>'' ''0.5'')
             (CompareNode ''tenant.daily_tokens'' ''>'' ''1000''))
           (NotInNode ''request.model'' [''mock-llm'', ''gpt 4'']),
         rn_action = ''BLOCK'', rn_reason = ''too risky''\<rparr>]\<rparr>"

lemma wf_sample: "wf_policy sample_policy"
  by code_simp

text \<open>
  C12: the parser reads back what a policy says.  For every well-formed policy, of any
  number of rules and any depth of conditions, parsing its text gives that policy: tenant,
  rule names, the tree of each condition, actions and reasons.
\<close>

theorem parse_print:
  assumes "wf_policy p"
  shows "Parse (print_policy p) = Inr p"
  using assms by (rule Parse_print)

lemma parse_print_witness: "Parse (print_policy sample_policy) = Inr sample_policy"
  by (rule parse_print [OF wf_sample])

text \<open>
  C35: whatever source the parser accepts, the tree it returns is well formed.  Operators are
  the ones the compiler knows, the right operand of AND and OR is an atom, no name is a
  keyword of the language and no value contains a quote or a newline; so the tree can be
  printed and the printed text is accepted with the same result.
\<close>

theorem parse_result_wf:
  assumes "Parse src = Inr p"
  shows "wf_policy p \<and> Parse (print_policy p) = Inr p"
  using Parse_wf [OF assms] Parse_print by blast

lemma parse_result_wf_witness: "wf_policy sample_policy \<and> Parse (print_policy sample_policy) = Inr sample_policy"
  by (rule parse_result_wf [OF Parse_print [OF wf_sample]])

text \<open>
  What stands after the closing brace of the policy is lexed and then ignored.  A second
  policy in the same file, or any other sequence of tokens, changes nothing; only a lexical
  error in it is reported.
\<close>

theorem parse_ignores_rest:
  assumes "wf_policy p"
  shows "Parse (print_policy p @ rest) =
    (case Lex rest of Inl e \<Rightarrow> Inl (LexError e) | Inr _ \<Rightarrow> Inr p)"
  using assms by (rule Parse_print_append)

lemma parse_ignores_rest_witness:
  "Parse (print_policy sample_policy @ ''policy tenant:other {}'') = Inr sample_policy \<and>
   Parse (print_policy sample_policy @ ''!'') = Inl (LexError (UnexpectedChar 1 (CHR ''!'')))"
proof -
  have "\<exists>ts. Lex ''policy tenant:other {}'' = Inr ts" "Lex ''!'' = Inl (UnexpectedChar 1 (CHR ''!''))"
    by (intro exI) code_simp+
  with parse_ignores_rest [OF wf_sample] show ?thesis by auto
qed

text \<open>A chain of comparisons as it is written, and the tree that leans to the left.\<close>

fun chain_lexemes :: "(string \<times> node) list \<Rightarrow> lexeme list" where
  "chain_lexemes [] = []"
| "chain_lexemes ((op, b) # qs) =
     (if op = ''AND'' then TAND else TOR, op) # condition_lexemes b @ chain_lexemes qs"

fun left_tree :: "node \<Rightarrow> (string \<times> node) list \<Rightarrow> node" where
  "left_tree l [] = l"
| "left_tree l ((op, b) # qs) = left_tree (BinaryExprNode op l b) qs"

fun wf_chain :: "(string \<times> node) list \<Rightarrow> bool" where
  "wf_chain [] = True"
| "wf_chain ((op, b) # qs) =
     ((op = ''AND'' \<or> op = ''OR'') \<and> is_atom b \<and> wf_condition b \<and> wf_chain qs)"

lemma left_tree_lexemes:
  "condition_lexemes (left_tree c qs) = condition_lexemes c @ chain_lexemes qs"
  by (induction c qs rule: left_tree.induct) simp_all

lemma left_tree_wf: "wf_condition c \<Longrightarrow> wf_chain qs \<Longrightarrow> wf_condition (left_tree c qs)"
  by (induction c qs rule: left_tree.induct) simp_all

text \<open>
  AND and OR have the same precedence and lean to the left.  A condition written as a
  chain \<open>a op1 b op2 c ...\<close> of comparisons is parsed as \<open>((a op1 b) op2 c) ...\<close>, whichever of
  the two operators each \<open>op\<close> is.
\<close>

theorem chain_leans_left:
  assumes "wf_condition a" and "wf_chain ops"
    and "tok_type (cur rest) \<noteq> TAND" and "tok_type (cur rest) \<noteq> TOR"
  shows "parse_condition (toks n (condition_lexemes a @ chain_lexemes ops) @ rest) =
    Inr (left_tree a ops, rest)"
proof -
  have "condition_rest (left_tree a ops) rest = Inr (left_tree a ops, rest)"
    using assms(3,4) by (subst condition_rest.simps) simp
  with parse_condition_toks [OF left_tree_wf [OF assms(1,2)], of n rest] show ?thesis
    by (simp only: left_tree_lexemes)
qed

lemma chain_leans_left_witness:
  "parse_condition
      (toks 1 [(TIDENT, ''a''), (TGT, ''>''), (TNUMBER, ''1''),
         (TOR, ''OR''), (TIDENT, ''b''), (TGT, ''>''), (TNUMBER, ''2''),
         (TAND, ''AND''), (TIDENT, ''c''), (TLT, ''<''), (TNUMBER, ''3'')]) =
   Inr (BinaryExprNode ''AND''
          (BinaryExprNode ''OR'' (CompareNode ''a'' ''>'' ''1'') (CompareNode ''b'' ''>'' ''2''))
          (CompareNode ''c'' ''<'' ''3''), [])"
proof -
  let ?a = "CompareNode ''a'' ''>'' ''1''"
  let ?qs = "[(''OR'', CompareNode ''b'' ''>'' ''2''), (''AND'', CompareNode ''c'' ''<'' ''3'')]"
  have wf: "wf_condition ?a" "wf_chain ?qs" by code_simp+
  have eq: "condition_lexemes ?a @ chain_lexemes ?qs =
      [(TIDENT, ''a''), (TGT, ''>''), (TNUMBER, ''1''),
       (TOR, ''OR''), (TIDENT, ''b''), (TGT, ''>''), (TNUMBER, ''2''),
       (TAND, ''AND''), (TIDENT, ''c''), (TLT, ''<''), (TNUMBER, ''3'')]"
    by code_simp
  from chain_leans_left [OF wf, of "[]" 1]
  have "parse_condition (toks 1 (condition_lexemes ?a @ chain_lexemes ?qs)) = Inr (left_tree ?a ?qs, [])"
    by (simp only: cur_def list.case mk_token_sel token_type.distinct append_Nil2 not_False_eq_True
        simp_thms)
  then show ?thesis unfolding eq left_tree.simps .
qed

end
