(* ===== verification/Go_Text.thy ===== *)
theory Go_Text
  imports Go_Base
begin

text \<open>
  Go's view of a byte string as UTF-8 (\<open>for _, r := range s\<close>, the \<open>regexp\<close> package) and the
  functions of \<open>strings\<close> the program calls.  An invalid byte decodes to U+FFFD with width
  one.  The case tables of the \<open>unicode\<close> package beyond ASCII are data outside the
  repository: the two functions of \<open>unicode_tables\<close> stand for \<open>unicode.ToLower\<close> and
  \<open>unicode.ToUpper\<close> on runes from 0x80 on.
\<close>

type_synonym rune = int

abbreviation RuneError :: rune where "RuneError \<equiv> 0xFFFD"

definition is_cont :: "int \<Rightarrow> bool" where
  "is_cont b \<longleftrightarrow> 0x80 \<le> b \<and> b \<le> 0xBF"

text \<open>\<open>utf8.DecodeRune\<close> on \<open>c # cs\<close>: the rune and the bytes after it.\<close>

definition decode_rune :: "char \<Rightarrow> string \<Rightarrow> rune \<times> string" where
  "decode_rune c cs =
     (let b = byte_val c
      in if b < 0x80 then (b, cs)
         else case cs of
           [] \<Rightarrow> (RuneError, cs)
         | c1 # cs1 \<Rightarrow>
            (let b1 = byte_val c1
             in if 0xC2 \<le> b \<and> b \<le> 0xDF \<and> is_cont b1
                then ((b - 0xC0) * 64 + (b1 - 0x80), cs1)
                else case cs1 of
                  [] \<Rightarrow> (RuneError, cs)
                | c2 # cs2 \<Rightarrow>
                   (let b2 = byte_val c2
                    in if 0xE0 \<le> b \<and> b \<le> 0xEF \<and> is_cont b1 \<and> is_cont b2 \<and>
                          (b = 0xE0 \<longrightarrow> 0xA0 \<le> b1) \<and> (b = 0xED \<longrightarrow> b1 \<le> 0x9F)
                       then ((b - 0xE0) * 4096 + (b1 - 0x80) * 64 + (b2 - 0x80), cs2)
                       else case cs2 of
                         [] \<Rightarrow> (RuneError, cs)
                       | c3 # cs3 \<Rightarrow>
                          (let b3 = byte_val c3
                           in if 0xF0 \<le> b \<and> b \<le> 0xF4 \<and> is_cont b1 \<and> is_cont b2 \<and> is_cont b3 \<and>
                                 (b = 0xF0 \<longrightarrow> 0x90 \<le> b1) \<and> (b = 0xF4 \<longrightarrow> b1 \<le> 0x8F)
                              then ((b - 0xF0) * 262144 + (b1 - 0x80) * 4096 +
                                    (b2 - 0x80) * 64 + (b3 - 0x80), cs3)
                              else (RuneError, cs)))))"

lemma decode_rune_shorter: "decode_rune c cs = (r, rest) \<Longrightarrow> length rest \<le> length cs"
  by (auto simp: decode_rune_def Let_def split: if_splits list.splits)

lemma decode_rune_ascii [simp]: "byte_val c < 0x80 \<Longrightarrow> decode_rune c cs = (byte_val c, cs)"
  by (simp add: decode_rune_def)

function runes :: "string \<Rightarrow> rune list" where
  "runes [] = []"
| "runes (c # cs) = (let (r, rest) = decode_rune c cs in r # runes rest)"
  by pat_completeness auto
termination
  by (relation "measure length") (auto simp: le_imp_less_Suc dest!: decode_rune_shorter [OF sym])

definition is_ascii :: "string \<Rightarrow> bool" where
  "is_ascii s \<longleftrightarrow> list_all (\<lambda>c. byte_val c < 0x80) s"

lemma runes_ascii_append: "is_ascii s \<Longrightarrow> runes (s @ t) = map byte_val s @ runes t"
  by (induction s) (simp_all add: is_ascii_def)

lemma runes_ascii: "is_ascii s \<Longrightarrow> runes s = map byte_val s"
  using runes_ascii_append [of s "[]"] by simp

lemma length_runes: "length (runes s) \<le> length s"
proof (induction s rule: runes.induct)
  case (2 c cs)
  obtain r rest where d: "decode_rune c cs = (r, rest)" by (cases "decode_rune c cs") auto
  with 2 have "length (runes rest) \<le> length rest" by simp
  with decode_rune_shorter [OF d] d show ?case by simp
qed simp

text \<open>An ASCII byte cannot be swallowed by a truncated sequence before it, so it splits the text.\<close>

lemma not_cont_ascii: "byte_val x < 0x80 \<Longrightarrow> \<not> is_cont (byte_val x)"
  by (simp add: is_cont_def)

lemma decode_rune_split:
  assumes "byte_val x < 0x80"
  shows "decode_rune c (cs @ x # b) = (fst (decode_rune c cs), snd (decode_rune c cs) @ x # b)"
proof (cases "byte_val c < 0x80")
  case False
  note nx = not_cont_ascii [OF assms]
  consider "cs = []" | c1 where "cs = [c1]" | c1 c2 where "cs = [c1, c2]"
    | c1 c2 c3 cs' where "cs = c1 # c2 # c3 # cs'"
    by (metis list.exhaust)
  then show ?thesis
  proof cases
    case 1
    with nx show ?thesis by (cases b; cases "tl b") (auto simp: decode_rune_def Let_def)
  next
    case 2
    with nx show ?thesis by (cases b) (auto simp: decode_rune_def Let_def)
  next
    case 3
    with nx show ?thesis by (auto simp: decode_rune_def Let_def)
  next
    case 4
    then show ?thesis by (auto simp: decode_rune_def Let_def)
  qed
qed (simp add: decode_rune_def)

lemma runes_split_ascii:
  assumes "byte_val x < 0x80"
  shows "runes (a @ x # b) = runes a @ byte_val x # runes b"
proof (induction a rule: runes.induct)
  case 1
  with assms show ?case by simp
next
  case (2 c cs)
  obtain r rest where d: "decode_rune c cs = (r, rest)" by (cases "decode_rune c cs") auto
  with 2 have "runes (rest @ x # b) = runes rest @ byte_val x # runes b" by simp
  with d decode_rune_split [OF assms, of c cs b] show ?case by simp
qed

text \<open>\<open>utf8.AppendRune\<close>; surrogates and values out of range become U+FFFD.\<close>

definition encode_rune :: "rune \<Rightarrow> string" where
  "encode_rune r =
     (if 0 \<le> r \<and> r < 0x80 then [char_of r]
      else if 0x80 \<le> r \<and> r < 0x800 then [char_of (0xC0 + r div 64), char_of (0x80 + r mod 64)]
      else if r < 0 \<or> 0x10FFFF < r \<or> 0xD800 \<le> r \<and> r \<le> 0xDFFF
        then [CHR 0xEF, CHR 0xBF, CHR 0xBD]
      else if r < 0x10000
        then [char_of (0xE0 + r div 4096), char_of (0x80 + r div 64 mod 64), char_of (0x80 + r mod 64)]
      else [char_of (0xF0 + r div 262144), char_of (0x80 + r div 4096 mod 64),
            char_of (0x80 + r div 64 mod 64), char_of (0x80 + r mod 64)])"

subsection \<open>White space\<close>

text \<open>\<open>unicode.IsSpace\<close>.\<close>

definition is_space_rune :: "rune \<Rightarrow> bool" where
  "is_space_rune r \<longleftrightarrow>
     9 \<le> r \<and> r \<le> 13 \<or> r = 0x20 \<or> r = 0x85 \<or> r = 0xA0 \<or> r = 0x1680 \<or>
     0x2000 \<le> r \<and> r \<le> 0x200A \<or> r = 0x2028 \<or> r = 0x2029 \<or> r = 0x202F \<or> r = 0x205F \<or> r = 0x3000"

text \<open>\<open>strings.TrimSpace\<close>: white space runes are cut at the front, then at the back.\<close>

function trim_left_space :: "string \<Rightarrow> string" where
  "trim_left_space [] = []"
| "trim_left_space (c # cs) =
     (let (r, rest) = decode_rune c cs
      in if is_space_rune r then trim_left_space rest else c # cs)"
  by pat_completeness auto
termination
  by (relation "measure length") (auto simp: le_imp_less_Suc dest!: decode_rune_shorter [OF sym])

definition ends_in_space :: "string \<Rightarrow> nat \<Rightarrow> bool" where
  "ends_in_space s k \<longleftrightarrow>
     (case drop (length s - k) s of
        [] \<Rightarrow> False
      | c # cs \<Rightarrow> k \<le> length s \<and> snd (decode_rune c cs) = [] \<and> is_space_rune (fst (decode_rune c cs)))"

function trim_right_space :: "string \<Rightarrow> string" where
  "trim_right_space s =
     (if ends_in_space s 1 then trim_right_space (butlast s)
      else if ends_in_space s 2 then trim_right_space (take (length s - 2) s)
      else if ends_in_space s 3 then trim_right_space (take (length s - 3) s)
      else s)"
  by pat_completeness auto
termination
  by (relation "measure length") (auto simp: ends_in_space_def split: list.splits)

declare trim_right_space.simps [simp del]

definition trim_space :: "string \<Rightarrow> string" where
  "trim_space s = trim_right_space (trim_left_space s)"

text \<open>\<open>strings.Fields\<close>: the maximal runs of runes that are not white space.\<close>

function string_fields_from :: "string \<Rightarrow> string \<Rightarrow> string list" where
  "string_fields_from word [] = (if word = [] then [] else [word])"
| "string_fields_from word (c # cs) =
     (let (r, rest) = decode_rune c cs
      in if is_space_rune r
         then (if word = [] then string_fields_from [] rest else word # string_fields_from [] rest)
         else string_fields_from (word @ take (Suc (length cs) - length rest) (c # cs)) rest)"
  by pat_completeness auto
termination
  by (relation "measure (\<lambda>(w, s). length s)")
    (auto simp: le_imp_less_Suc dest!: decode_rune_shorter [OF sym])

definition string_fields :: "string \<Rightarrow> string list" where
  "string_fields s = string_fields_from [] s"

subsection \<open>Letter case\<close>

record unicode_tables =
  uni_lower :: "rune \<Rightarrow> rune"
  uni_upper :: "rune \<Rightarrow> rune"

definition rune_lower :: "unicode_tables \<Rightarrow> rune \<Rightarrow> rune" where
  "rune_lower u r = (if r < 0x80 then (if 65 \<le> r \<and> r \<le> 90 then r + 32 else r) else uni_lower u r)"

definition rune_upper :: "unicode_tables \<Rightarrow> rune \<Rightarrow> rune" where
  "rune_upper u r = (if r < 0x80 then (if 97 \<le> r \<and> r \<le> 122 then r - 32 else r) else uni_upper u r)"

text \<open>\<open>strings.ToLower\<close> and \<open>strings.ToUpper\<close>: bytes when all are ASCII, else rune by rune.\<close>

definition to_lower :: "unicode_tables \<Rightarrow> string \<Rightarrow> string" where
  "to_lower u s =
     (if is_ascii s then map lower_byte s else concat (map (\<lambda>r. encode_rune (rune_lower u r)) (runes s)))"

definition to_upper :: "unicode_tables \<Rightarrow> string \<Rightarrow> string" where
  "to_upper u s =
     (if is_ascii s then map upper_byte s else concat (map (\<lambda>r. encode_rune (rune_upper u r)) (runes s)))"

lemma to_lower_ascii [simp]: "is_ascii s \<Longrightarrow> to_lower u s = map lower_byte s"
  by (simp add: to_lower_def)

lemma to_upper_ascii [simp]: "is_ascii s \<Longrightarrow> to_upper u s = map upper_byte s"
  by (simp add: to_upper_def)

text \<open>\<open>strings.TrimRight(s, cutset)\<close> for a cutset of one byte.\<close>

definition trim_right_byte :: "char \<Rightarrow> string \<Rightarrow> string" where
  "trim_right_byte c s = rev (dropWhile (\<lambda>x. x = c) (rev s))"

end
