(* ===== verification/Dsl_Compiler.thy ===== *)
theory Dsl_Compiler
  imports Dsl_Parser Go_Text
begin

text \<open>
  The compiler and evaluator, \<open>internal/policy/dsl/compiler.go\<close>.  A condition closure of the
  source is a HOL function on the evaluation context.  \<open>wt_node\<close> and \<open>sem_node\<close> give the
  condition language a typing and a direct semantics on the syntax tree; the lemmas show
  that \<open>compileNode\<close> succeeds exactly on the well-typed conditions and that its closure
  computes that semantics, and that \<open>Evaluate\<close> answers the first rule that matches.
  The parameter \<open>u\<close> is the case table of the \<open>unicode\<close> package (theory \<open>Go_Text\<close>).
\<close>

subsection \<open>Data\<close>

text \<open>\<open>Action\<close> is a string type in the source; the zero \<open>Verdict\<close> has the empty action.\<close>

type_synonym action = string

abbreviation ActionBlock :: action where "ActionBlock \<equiv> ''BLOCK''"
abbreviation ActionTag :: action where "ActionTag \<equiv> ''TAG''"
abbreviation ActionLog :: action where "ActionLog \<equiv> ''LOG''"
abbreviation ActionRedact :: action where "ActionRedact \<equiv> ''REDACT''"

record eval_context =
  InputRiskScore :: f64
  RequestModel :: string
  TenantDailyTokens :: f64

record compiled_rule =
  cr_name :: string
  cr_condition :: "eval_context \<Rightarrow> bool"
  cr_action :: action
  cr_reason :: string

record verdict =
  v_matched :: bool
  v_rule_name :: string
  v_action :: action
  v_reason :: string

definition no_verdict :: verdict where
  "no_verdict = \<lparr>v_matched = False, v_rule_name = [], v_action = [], v_reason = []\<rparr>"

datatype compile_error =
    UnknownField string
  | NotAStringField string
  | ExpectsNumber string string
  | StringOnlyEq string string
  | UnsupportedOp string string
  | UnknownBinaryOp string
  | UnknownNodeType
  | UnknownAction string
  | InRule string compile_error

subsection \<open>Evaluation\<close>

fun Evaluate :: "compiled_rule list \<Rightarrow> eval_context \<Rightarrow> verdict" where
  "Evaluate [] ctx = no_verdict"
| "Evaluate (r # rs) ctx =
     (if cr_condition r ctx
      then \<lparr>v_matched = True, v_rule_name = cr_name r, v_action = cr_action r, v_reason = cr_reason r\<rparr>
      else Evaluate rs ctx)"

subsection \<open>Compilation\<close>

text \<open>The getter is absent (nil) for the string field; the kind says which path to take.\<close>

definition field_getter :: "string \<Rightarrow> compile_error + (eval_context \<Rightarrow> f64) option \<times> string" where
  "field_getter field =
     (if field = ''input.risk_score'' then Inr (Some InputRiskScore, ''float'')
      else if field = ''tenant.daily_tokens'' then Inr (Some TenantDailyTokens, ''float'')
      else if field = ''request.model'' then Inr (None, ''string'')
      else Inl (UnknownField field))"

definition string_field_getter :: "string \<Rightarrow> compile_error + (eval_context \<Rightarrow> string)" where
  "string_field_getter field =
     (if field = ''request.model'' then Inr RequestModel else Inl (NotAStringField field))"

text \<open>
  \<open>compileCompare\<close>.  The getter of a float field is never nil, so the \<open>None\<close> case of the
  float path cannot arise; the final error is what the source returns after the switch.
\<close>

definition compile_compare ::
  "unicode_tables \<Rightarrow> string \<Rightarrow> string \<Rightarrow> string \<Rightarrow> compile_error + (eval_context \<Rightarrow> bool)" where
  "compile_compare u field op value =
     (case field_getter field of
        Inl e \<Rightarrow> Inl e
      | Inr (getter, kind) \<Rightarrow>
          if kind = ''float'' then
            (case (parse_float value, getter) of
               (None, _) \<Rightarrow> Inl (ExpectsNumber field value)
             | (Some num_val, None) \<Rightarrow> Inl (UnsupportedOp op field)
             | (Some num_val, Some get) \<Rightarrow>
                 if op = ''>'' then Inr (\<lambda>ctx. f64_lt num_val (get ctx))
                 else if op = ''<'' then Inr (\<lambda>ctx. f64_lt (get ctx) num_val)
                 else if op = ''=='' then Inr (\<lambda>ctx. f64_eq (get ctx) num_val)
                 else Inl (UnsupportedOp op field))
          else if kind = ''string'' then
            (let str_val = to_lower u value
             in case string_field_getter field of
                  Inl e \<Rightarrow> Inl e
                | Inr str_get \<Rightarrow>
                    if op \<noteq> ''=='' then Inl (StringOnlyEq field op)
                    else Inr (\<lambda>ctx. to_lower u (str_get ctx) = str_val))
          else Inl (UnsupportedOp op field))"

definition compile_not_in ::
  "unicode_tables \<Rightarrow> string \<Rightarrow> string list \<Rightarrow> compile_error + (eval_context \<Rightarrow> bool)" where
  "compile_not_in u field values =
     (case string_field_getter field of
        Inl e \<Rightarrow> Inl e
      | Inr str_get \<Rightarrow>
          (let allowed = map (to_lower u) values
           in Inr (\<lambda>ctx. to_lower u (str_get ctx) \<notin> set allowed)))"

fun compile_node :: "unicode_tables \<Rightarrow> node \<Rightarrow> compile_error + (eval_context \<Rightarrow> bool)" where
  "compile_node u (BinaryExprNode op l r) =
     (case compile_node u l of
        Inl e \<Rightarrow> Inl e
      | Inr left \<Rightarrow>
          (case compile_node u r of
             Inl e \<Rightarrow> Inl e
           | Inr right \<Rightarrow>
               if op = ''AND'' then Inr (\<lambda>ctx. left ctx \<and> right ctx)
               else if op = ''OR'' then Inr (\<lambda>ctx. left ctx \<or> right ctx)
               else Inl (UnknownBinaryOp op)))"
| "compile_node u (CompareNode f op v) = compile_compare u f op v"
| "compile_node u (NotInNode f vs) = compile_not_in u f vs"
| "compile_node u OtherNode = Inl UnknownNodeType"

definition parse_action :: "unicode_tables \<Rightarrow> string \<Rightarrow> compile_error + action" where
  "parse_action u s =
     (let a = to_upper u s
      in if a \<in> {ActionBlock, ActionTag, ActionLog, ActionRedact} then Inr a
         else Inl (UnknownAction s))"

definition compile_rule :: "unicode_tables \<Rightarrow> rule_node \<Rightarrow> compile_error + compiled_rule" where
  "compile_rule u rn =
     (case compile_node u (rn_condition rn) of
        Inl e \<Rightarrow> Inl (InRule (rn_name rn) e)
      | Inr cond \<Rightarrow>
          (case parse_action u (rn_action rn) of
             Inl e \<Rightarrow> Inl (InRule (rn_name rn) e)
           | Inr a \<Rightarrow> Inr \<lparr>cr_name = rn_name rn, cr_condition = cond, cr_action = a,
                            cr_reason = rn_reason rn\<rparr>))"

fun compile_rules :: "unicode_tables \<Rightarrow> rule_node list \<Rightarrow> compile_error + compiled_rule list" where
  "compile_rules u [] = Inr []"
| "compile_rules u (rn # rns) =
     (case compile_rule u rn of
        Inl e \<Rightarrow> Inl e
      | Inr r \<Rightarrow> (case compile_rules u rns of Inl e \<Rightarrow> Inl e | Inr rs \<Rightarrow> Inr (r # rs)))"

definition Compile :: "unicode_tables \<Rightarrow> policy_node \<Rightarrow> compile_error + compiled_rule list" where
  "Compile u policy = compile_rules u (pn_rules policy)"

subsection \<open>Typing and semantics of conditions\<close>

definition float_field :: "string \<Rightarrow> (eval_context \<Rightarrow> f64) option" where
  "float_field f =
     (if f = ''input.risk_score'' then Some InputRiskScore
      else if f = ''tenant.daily_tokens'' then Some TenantDailyTokens
      else None)"

fun wt_node :: "node \<Rightarrow> bool" where
  "wt_node (BinaryExprNode op l r) \<longleftrightarrow> (op = ''AND'' \<or> op = ''OR'') \<and> wt_node l \<and> wt_node r"
| "wt_node (CompareNode f op v) \<longleftrightarrow>
     float_field f \<noteq> None \<and> parse_float v \<noteq> None \<and> (op = ''>'' \<or> op = ''<'' \<or> op = ''=='') \<or>
     f = ''request.model'' \<and> op = ''==''"
| "wt_node (NotInNode f vs) \<longleftrightarrow> f = ''request.model''"
| "wt_node OtherNode \<longleftrightarrow> False"

fun sem_node :: "unicode_tables \<Rightarrow> node \<Rightarrow> eval_context \<Rightarrow> bool" where
  "sem_node u (BinaryExprNode op l r) ctx =
     (if op = ''AND'' then sem_node u l ctx \<and> sem_node u r ctx else sem_node u l ctx \<or> sem_node u r ctx)"
| "sem_node u (CompareNode f op v) ctx =
     (case float_field f of
        None \<Rightarrow> to_lower u (RequestModel ctx) = to_lower u v
      | Some get \<Rightarrow>
          (let x = get ctx; y = the (parse_float v)
           in if op = ''>'' then f64_lt y x else if op = ''<'' then f64_lt x y else f64_eq x y))"
| "sem_node u (NotInNode f vs) ctx = (\<forall>v \<in> set vs. to_lower u (RequestModel ctx) \<noteq> to_lower u v)"
| "sem_node u OtherNode ctx = False"

lemma compile_compare_sem:
  "case compile_compare u f op v of
     Inl e \<Rightarrow> \<not> wt_node (CompareNode f op v)
   | Inr c \<Rightarrow> wt_node (CompareNode f op v) \<and> c = sem_node u (CompareNode f op v)"
  by (auto simp: compile_compare_def field_getter_def string_field_getter_def float_field_def Let_def
      fun_eq_iff split: option.split)

lemma compile_node_sem:
  "case compile_node u n of Inl e \<Rightarrow> \<not> wt_node n | Inr c \<Rightarrow> wt_node n \<and> c = sem_node u n"
proof (induction n)
  case (BinaryExprNode op l r)
  then show ?case by (auto split: sum.split_asm sum.split simp: fun_eq_iff)
next
  case (CompareNode f op v)
  then show ?case using compile_compare_sem by simp
next
  case (NotInNode f vs)
  then show ?case by (auto simp: compile_not_in_def string_field_getter_def fun_eq_iff image_iff)
qed simp

lemma compile_node_iff: "compile_node u n = Inr c \<longleftrightarrow> wt_node n \<and> c = sem_node u n"
  using compile_node_sem [where u = u and n = n] by (auto split: sum.split_asm)

text \<open>Actions.\<close>

definition known_action :: "unicode_tables \<Rightarrow> string \<Rightarrow> bool" where
  "known_action u s \<longleftrightarrow> to_upper u s \<in> {ActionBlock, ActionTag, ActionLog, ActionRedact}"

lemma parse_action_iff: "parse_action u s = Inr a \<longleftrightarrow> known_action u s \<and> a = to_upper u s"
  by (auto simp: parse_action_def known_action_def Let_def)

definition wt_rule :: "unicode_tables \<Rightarrow> rule_node \<Rightarrow> bool" where
  "wt_rule u r \<longleftrightarrow> wt_node (rn_condition r) \<and> known_action u (rn_action r)"

definition rule_of :: "unicode_tables \<Rightarrow> rule_node \<Rightarrow> compiled_rule" where
  "rule_of u rn =
     \<lparr>cr_name = rn_name rn, cr_condition = sem_node u (rn_condition rn),
      cr_action = to_upper u (rn_action rn), cr_reason = rn_reason rn\<rparr>"

lemma compile_rule_iff: "compile_rule u rn = Inr r \<longleftrightarrow> wt_rule u rn \<and> r = rule_of u rn"
proof (cases "compile_node u (rn_condition rn)")
  case (Inl e)
  then have "\<not> wt_node (rn_condition rn)"
    using compile_node_iff [of u "rn_condition rn" "sem_node u (rn_condition rn)"] by auto
  with Inl show ?thesis by (simp add: compile_rule_def wt_rule_def)
next
  case (Inr c)
  then have c: "wt_node (rn_condition rn)" "c = sem_node u (rn_condition rn)"
    using compile_node_iff by blast+
  with Inr show ?thesis
    by (auto simp: compile_rule_def wt_rule_def rule_of_def parse_action_def known_action_def Let_def)
qed

lemma compile_rules_iff:
  "compile_rules u rns = Inr rs \<longleftrightarrow> list_all (wt_rule u) rns \<and> rs = map (rule_of u) rns"
proof (induction rns arbitrary: rs)
  case (Cons rn rns)
  show ?case
  proof (cases "compile_rule u rn")
    case (Inl e)
    moreover from this have "\<not> wt_rule u rn" using compile_rule_iff [of u rn] by auto
    ultimately show ?thesis by simp
  next
    case (Inr r)
    moreover from this have "wt_rule u rn" "r = rule_of u rn" using compile_rule_iff by blast+
    ultimately show ?thesis using Cons by (cases "compile_rules u rns") auto
  qed
qed auto

text \<open>\<open>Evaluate\<close> is the first match.\<close>

definition verdict_of :: "compiled_rule \<Rightarrow> verdict" where
  "verdict_of r =
     \<lparr>v_matched = True, v_rule_name = cr_name r, v_action = cr_action r, v_reason = cr_reason r\<rparr>"

lemma Evaluate_find:
  "Evaluate rs ctx = (case find (\<lambda>r. cr_condition r ctx) rs of None \<Rightarrow> no_verdict | Some r \<Rightarrow> verdict_of r)"
  by (induction rs) (simp_all add: verdict_of_def)

lemma Evaluate_append:
  "\<forall>r \<in> set rs. \<not> cr_condition r ctx \<Longrightarrow> Evaluate (rs @ qs) ctx = Evaluate qs ctx"
  by (induction rs) auto

lemma Evaluate_unmatched: "\<not> v_matched (Evaluate rs ctx) \<longleftrightarrow> (\<forall>r \<in> set rs. \<not> cr_condition r ctx)"
  by (induction rs) (auto simp: no_verdict_def)

subsection \<open>Properties\<close>

lemma Compile_iff:
  "Compile u p = Inr rs \<longleftrightarrow> list_all (wt_rule u) (pn_rules p) \<and> rs = map (rule_of u) (pn_rules p)"
  unfolding Compile_def by (rule compile_rules_iff)

lemma find_map: "find P (map f xs) = map_option f (find (P \<circ> f) xs)"
  by (induction xs) auto

lemma Evaluate_compiled:
  "Evaluate (map (rule_of u) rns) ctx =
    (case find (\<lambda>rn. sem_node u (rn_condition rn) ctx) rns of
       None \<Rightarrow> no_verdict
     | Some rn \<Rightarrow> \<lparr>v_matched = True, v_rule_name = rn_name rn, v_action = to_upper u (rn_action rn),
                    v_reason = rn_reason rn\<rparr>)"
  by (simp add: Evaluate_find find_map comp_def rule_of_def verdict_of_def split: option.split)

text \<open>
  A case table for concrete evaluations: no rune outside ASCII has another case.  The code
  only consults the table for text outside ASCII.
\<close>

definition no_case :: unicode_tables where
  "no_case = \<lparr>uni_lower = id, uni_upper = id\<rparr>"

text \<open>
  C7: compilation accepts exactly the well-typed policies.  \<open>Compile\<close> succeeds if and only if
  every condition compares a float field with a number or the model with a string by \<open>==\<close>
  or NOT_IN, and every action is one of the four; the compiled rules are then, in order,
  the rules of the tree with the direct semantics of their conditions: the closures lose
  nothing and short circuits change nothing.
\<close>

theorem compile_exact:
  "Compile u p = Inr rs \<longleftrightarrow> list_all (wt_rule u) (pn_rules p) \<and> rs = map (rule_of u) (pn_rules p)"
  by (rule Compile_iff)

text \<open>
  C3: first match wins.  For a compiled policy the verdict is that of the first rule, in
  the order of the file, whose condition holds of the context, with the rule's name,
  reason and upper-cased action; when no condition holds it is the zero verdict, which
  callers read as no match.
\<close>

theorem evaluate_first_match:
  assumes "Compile u p = Inr rs"
  shows "Evaluate rs ctx =
    (case find (\<lambda>rn. sem_node u (rn_condition rn) ctx) (pn_rules p) of
       None \<Rightarrow> no_verdict
     | Some rn \<Rightarrow> \<lparr>v_matched = True, v_rule_name = rn_name rn, v_action = to_upper u (rn_action rn),
                    v_reason = rn_reason rn\<rparr>)"
  using assms by (simp add: Compile_iff Evaluate_compiled)

lemma wt_sample: "list_all (wt_rule no_case) (pn_rules sample_policy)"
  by code_simp

lemma evaluate_first_match_witness:
  "v_rule_name (Evaluate (map (rule_of no_case) (pn_rules sample_policy))
     \<lparr>InputRiskScore = Fin (3 / 4), RequestModel = ''mock-llm-v1'', TenantDailyTokens = Fin 0\<rparr>) = ''r1''"
proof -
  have c: "Compile no_case sample_policy = Inr (map (rule_of no_case) (pn_rules sample_policy))"
    by (simp only: Compile_iff wt_sample simp_thms)
  have "find (\<lambda>rn. sem_node no_case (rn_condition rn)
      \<lparr>InputRiskScore = Fin (3 / 4), RequestModel = ''mock-llm-v1'', TenantDailyTokens = Fin 0\<rparr>)
      (pn_rules sample_policy) = Some (hd (pn_rules sample_policy))"
    by code_simp
  then show ?thesis
    unfolding evaluate_first_match [OF c] by (simp add: sample_policy_def)
qed

text \<open>The compile errors a policy author can cause.\<close>

fun policy_error :: "compile_error \<Rightarrow> bool" where
  "policy_error (UnknownField _) = True"
| "policy_error (NotAStringField _) = True"
| "policy_error (ExpectsNumber _ _) = True"
| "policy_error (StringOnlyEq _ _) = True"
| "policy_error (UnknownAction _) = True"
| "policy_error _ = False"

lemma compile_node_error: "compile_node u n = Inl e \<Longrightarrow> wf_condition n \<Longrightarrow> policy_error e"
proof (induction n arbitrary: e)
  case (BinaryExprNode op l r)
  then show ?case by (auto split: sum.split_asm if_split_asm)
next
  case (CompareNode f op v)
  then show ?case
    by (auto simp: compile_compare_def field_getter_def string_field_getter_def Let_def
        split: if_split_asm option.split_asm)
next
  case (NotInNode f vs)
  then show ?case
    by (auto simp: compile_not_in_def string_field_getter_def Let_def split: if_split_asm)
qed simp

lemma compile_rules_error:
  "compile_rules u rns = Inl e \<Longrightarrow> list_all wf_rule rns \<Longrightarrow>
   \<exists>rn e'. rn \<in> set rns \<and> e = InRule (rn_name rn) e' \<and> policy_error e'"
proof (induction rns)
  case (Cons rn rns)
  then show ?case
    by (auto simp: compile_rule_def parse_action_def wf_rule_def Let_def
        split: sum.split_asm if_split_asm dest: compile_node_error)
qed simp

text \<open>
  C36: the only compile errors of a parsed policy are about the policy.  For a tree that came
  out of the parser, the error names one of its rules and is an unknown field, a string
  operation on a float field, a value that is not a number, an ordering of the model name,
  or an unknown action; the defensive branches of the source (unknown operator, unknown
  node type, unsupported operator) cannot be reached.
\<close>

theorem parsed_policy_errors:
  assumes "Parse src = Inr p" and "Compile u p = Inl e"
  shows "\<exists>rn e'. rn \<in> set (pn_rules p) \<and> e = InRule (rn_name rn) e' \<and> policy_error e'"
  using Parse_wf [OF assms(1)] assms(2) compile_rules_error
  by (simp add: wf_policy_def Compile_def)

lemma parsed_policy_errors_witness:
  "\<exists>rn e'. rn \<in> set (pn_rules \<lparr>pn_tenant_id = ''dev'', pn_rules =
     [\<lparr>rn_name = ''r'', rn_condition = CompareNode ''input.risk'' ''>'' ''1'', rn_action = ''TAG'',
       rn_reason = []\<rparr>]\<rparr>) \<and> InRule ''r'' (UnknownField ''input.risk'') = InRule (rn_name rn) e' \<and> policy_error e'"
proof (rule parsed_policy_errors)
  show "Parse (''policy tenant:dev { rule r { when input.risk > 1 action TAG reason '' @ [DQUOTE, DQUOTE] @ '' } }'') =
    Inr \<lparr>pn_tenant_id = ''dev'', pn_rules =
     [\<lparr>rn_name = ''r'', rn_condition = CompareNode ''input.risk'' ''>'' ''1'', rn_action = ''TAG'',
       rn_reason = []\<rparr>]\<rparr>" by code_simp
qed (simp add: Compile_def compile_rule_def compile_compare_def field_getter_def)

text \<open>
  A rule whose threshold is spelled \<open>nan\<close> compiles and never fires.  \<open>ParseFloat\<close> accepts
  the word in any case, quoted in the policy, and every comparison with NaN is false.
\<close>

theorem nan_rule_never_fires:
  assumes "parse_float v = Some NaN" and "float_field f \<noteq> None"
    and "compile_compare u f op v = Inr c"
  shows "\<not> c ctx"
proof -
  have nan: "\<not> f64_lt NaN x" "\<not> f64_lt x NaN" "\<not> f64_eq x NaN" for x
    by (cases x; simp)+
  have "c = sem_node u (CompareNode f op v)" using compile_compare_sem [where u = u and f = f and op = op and v = v] assms(3) by simp
  with assms(1,2) show ?thesis by (auto simp: nan Let_def)
qed

lemma nan_rule_never_fires_witness:
  "\<not> sem_node no_case (CompareNode ''input.risk_score'' ''>'' ''NaN'') \<lparr>InputRiskScore = Fin 1, RequestModel = [], TenantDailyTokens = Fin 0\<rparr>"
proof (rule nan_rule_never_fires)
  show "parse_float ''NaN'' = Some NaN" "float_field ''input.risk_score'' \<noteq> None"
    by code_simp+
  then show "compile_compare no_case ''input.risk_score'' ''>'' ''NaN'' =
      Inr (sem_node no_case (CompareNode ''input.risk_score'' ''>'' ''NaN''))"
    using compile_node_iff [of no_case "CompareNode ''input.risk_score'' ''>'' ''NaN''"] by auto
qed

text \<open>
  Token thresholds are exact.  For a rule \<open>tenant.daily_tokens > v\<close> with an integer
  threshold \<open>N\<close>, the closure fires on a usage of \<open>n\<close> tokens exactly when \<open>n\<close> exceeds \<open>N\<close>, as
  long as both stay within \<open>2 ^ 53\<close>: the conversion to float64 loses nothing there.
\<close>

theorem daily_tokens_exact:
  assumes "parse_float v = Some (Fin (of_int N))" and "\<bar>n\<bar> \<le> 2 ^ 53"
    and "compile_compare u ''tenant.daily_tokens'' ''>'' v = Inr c"
    and "TenantDailyTokens ctx = f64_of_int n"
  shows "c ctx \<longleftrightarrow> N < n"
proof -
  have "c = sem_node u (CompareNode ''tenant.daily_tokens'' ''>'' v)"
    using compile_compare_sem [where u = u and f = "''tenant.daily_tokens''" and op = "''>''" and v = v]
      assms(3) by simp
  with assms show ?thesis by (simp add: float_field_def Let_def f64_of_int_def rnd_of_int)
qed

lemma daily_tokens_exact_witness:
  "sem_node no_case (CompareNode ''tenant.daily_tokens'' ''>'' ''100000'')
     \<lparr>InputRiskScore = Fin 1, RequestModel = [], TenantDailyTokens = f64_of_int 100001\<rparr> \<longleftrightarrow>
   (100000::int) < 100001"
proof (rule daily_tokens_exact)
  show "parse_float ''100000'' = Some (Fin (of_int 100000))" by code_simp
  then show "compile_compare no_case ''tenant.daily_tokens'' ''>'' ''100000'' =
      Inr (sem_node no_case (CompareNode ''tenant.daily_tokens'' ''>'' ''100000''))"
    using compile_node_iff [of no_case "CompareNode ''tenant.daily_tokens'' ''>'' ''100000''"]
    by (auto simp: float_field_def)
qed simp_all

end
