(* ===== verification/Gateway_Events.thy ===== *)
theory Gateway_Events
  imports Go_Base
begin

text \<open>
  What the gateway reports while it works: log entries (\<open>internal/logger/logger.go\<close>) and
  metric updates (\<open>internal/metrics/metrics.go\<close>), as a trace of events.  Of a log entry the
  level and the message are kept, of a histogram observation its name and labels; the
  free-form fields, the time stamps and the measured durations are not.
\<close>

subsection \<open>The logger\<close>

type_synonym level = string

abbreviation LevelInfo :: level where "LevelInfo \<equiv> ''info''"
abbreviation LevelWarn :: level where "LevelWarn \<equiv> ''warn''"
abbreviation LevelError :: level where "LevelError \<equiv> ''error''"

text \<open>The lookup in \<open>order\<close>: an unknown level reads as zero.\<close>

definition level_order :: "level \<Rightarrow> nat" where
  "level_order l =
     (case map_of [(LevelInfo, 0), (LevelWarn, 1), (LevelError, 2)] l of None \<Rightarrow> 0 | Some n \<Rightarrow> n)"

definition shouldLog :: "level \<Rightarrow> level \<Rightarrow> bool" where
  "shouldLog min_level lv \<longleftrightarrow> level_order min_level \<le> level_order lv"

subsection \<open>Events\<close>

datatype event =
    Log level string
  | Inc string "string list"
  | Observe string "string list"

definition log_event :: "level \<Rightarrow> level \<Rightarrow> string \<Rightarrow> event list" where
  "log_event min_level lv msg = (if shouldLog min_level lv then [Log lv msg] else [])"

abbreviation "RequestsTotal \<equiv> Inc ''gateway_requests_total''"
abbreviation "RequestDuration \<equiv> Observe ''gateway_request_duration_seconds''"
abbreviation "GuardrailBlocksTotal \<equiv> Inc ''guardrail_blocks_total''"
abbreviation "PolicyEvaluationsTotal \<equiv> Inc ''policy_evaluations_total''"
abbreviation "StreamAbortsTotal \<equiv> Inc ''stream_aborts_total''"
abbreviation "RateLimitHitsTotal \<equiv> Inc ''rate_limit_hits_total''"
abbreviation "StreamTTFTSeconds \<equiv> Observe ''gateway_stream_ttft_seconds''"
abbreviation "StreamInterChunkDurationSeconds \<equiv> Observe ''gateway_stream_inter_chunk_duration_seconds''"
abbreviation "StreamCheckDurationSeconds \<equiv> Observe ''gateway_stream_check_duration_seconds''"

end
