(* ===== verification/Policy_Watcher.thy ===== *)
theory Policy_Watcher
  imports Dsl_Compiler Gateway_Events
begin

text \<open>
  The policy watcher, \<open>internal/policy/watcher.go\<close>.  Reading the file is an input: the
  content of the file, or the error, at the moment of the read.  The goroutine of \<open>watch\<close>
  is a step relation driven by what its \<open>select\<close> receives; requests read the active bundle
  between its steps, under the lock, so a request sees the bundle of some state of a run.
  Publishing to the cache has no effect on the watcher but a log entry; whether a cache is
  configured and whether its \<open>Set\<close> fails are inputs.
\<close>

subsection \<open>Loading\<close>

record policy_bundle =
  b_tenant_id :: string
  b_rules :: "compiled_rule list"

definition Bundle_Evaluate :: "policy_bundle \<Rightarrow> eval_context \<Rightarrow> verdict" where
  "Bundle_Evaluate b ctx = Evaluate (b_rules b) ctx"

type_synonym read_result = "string + bytes"

datatype load_error =
    ReadError string
  | ParseFailed parse_error
  | CompileFailed compile_error

definition load :: "unicode_tables \<Rightarrow> read_result \<Rightarrow> load_error + policy_bundle \<times> bytes" where
  "load u rd =
     (case rd of
        Inl e \<Rightarrow> Inl (ReadError e)
      | Inr src \<Rightarrow>
          (case Parse src of
             Inl e \<Rightarrow> Inl (ParseFailed e)
           | Inr ast \<Rightarrow>
               (case Compile u ast of
                  Inl e \<Rightarrow> Inl (CompileFailed e)
                | Inr rules \<Rightarrow> Inr (\<lparr>b_tenant_id = pn_tenant_id ast, b_rules = rules\<rparr>, src))))"

subsection \<open>The watcher\<close>

text \<open>The outcome of \<open>policyCache.Set\<close>, if a cache is configured.\<close>

datatype cache_outcome = NoCache | CacheSet | CacheError

record watcher =
  w_bundle :: policy_bundle
  w_running :: bool
  w_level :: level
  w_log :: "event list"

definition w_emit :: "level \<Rightarrow> string \<Rightarrow> watcher \<Rightarrow> watcher" where
  "w_emit lv msg w = w\<lparr>w_log := w_log w @ log_event (w_level w) lv msg\<rparr>"

definition publishToCache :: "cache_outcome \<Rightarrow> watcher \<Rightarrow> watcher" where
  "publishToCache c w =
     (case c of
        NoCache \<Rightarrow> w
      | CacheError \<Rightarrow> w_emit LevelError ''policy_cache_publish_failed'' w
      | CacheSet \<Rightarrow> w_emit LevelInfo ''policy_cache_published'' w)"

text \<open>
  \<open>NewWatcher\<close> and the start of \<open>watch\<close>: the goroutine ends at once when \<open>fsnotify\<close> cannot
  be set up.
\<close>

datatype fs_setup = SetupOK | InitFailed | AddFailed

definition start_watch :: "fs_setup \<Rightarrow> watcher \<Rightarrow> watcher" where
  "start_watch fs w =
     (case fs of
        InitFailed \<Rightarrow> (w_emit LevelError ''policy_watcher_init_failed'' w)\<lparr>w_running := False\<rparr>
      | AddFailed \<Rightarrow> (w_emit LevelError ''policy_watcher_add_failed'' w)\<lparr>w_running := False\<rparr>
      | SetupOK \<Rightarrow> w_emit LevelInfo ''policy_watcher_started'' w)"

definition NewWatcher ::
  "unicode_tables \<Rightarrow> level \<Rightarrow> read_result \<Rightarrow> cache_outcome \<Rightarrow> fs_setup \<Rightarrow> load_error + watcher" where
  "NewWatcher u lv rd c fs =
     (case load u rd of
        Inl e \<Rightarrow> Inl e
      | Inr (b, src) \<Rightarrow>
          Inr (start_watch fs
                (publishToCache c \<lparr>w_bundle = b, w_running = True, w_level = lv, w_log = []\<rparr>)))"

definition reload :: "unicode_tables \<Rightarrow> read_result \<Rightarrow> cache_outcome \<Rightarrow> watcher \<Rightarrow> watcher" where
  "reload u rd c w =
     (case load u rd of
        Inl e \<Rightarrow> w_emit LevelError ''policy_reload_failed'' w
      | Inr (b, src) \<Rightarrow> publishToCache c (w_emit LevelInfo ''policy_reloaded'' (w\<lparr>w_bundle := b\<rparr>)))"

text \<open>
  What the \<open>select\<close> of the loop can receive.  A file event is a set of operations; with it
  come the file as \<open>reload\<close> will read it and the outcome of the cache.
\<close>

datatype fs_op = FsCreate | FsWrite | FsRemove | FsRename | FsChmod

datatype watch_input =
    WatchDone
  | FsEvent "fs_op list" read_result cache_outcome
  | FsEventsClosed
  | FsError string
  | FsErrorsClosed

definition watch_iter :: "unicode_tables \<Rightarrow> watch_input \<Rightarrow> watcher \<Rightarrow> watcher" where
  "watch_iter u i w =
     (case i of
        WatchDone \<Rightarrow> w\<lparr>w_running := False\<rparr>
      | FsEventsClosed \<Rightarrow> w\<lparr>w_running := False\<rparr>
      | FsErrorsClosed \<Rightarrow> w\<lparr>w_running := False\<rparr>
      | FsError e \<Rightarrow> w_emit LevelError ''policy_watcher_error'' w
      | FsEvent ops rd c \<Rightarrow>
          if FsWrite \<in> set ops \<or> FsCreate \<in> set ops then reload u rd c w else w)"

inductive watch_step :: "unicode_tables \<Rightarrow> watcher \<Rightarrow> watch_input \<Rightarrow> watcher \<Rightarrow> bool" for u where
  step: "w_running w \<Longrightarrow> watch_step u w i (watch_iter u i w)"

inductive_cases watch_stepE: "watch_step u w i w'"

inductive watch_run :: "unicode_tables \<Rightarrow> watcher \<Rightarrow> watch_input list \<Rightarrow> watcher \<Rightarrow> bool" for u where
  refl: "watch_run u w [] w"
| snoc: "watch_run u w is w' \<Longrightarrow> watch_step u w' i w'' \<Longrightarrow> watch_run u w (is @ [i]) w''"

subsection \<open>What a state can hold\<close>

lemma load_Inr:
  "load u rd = Inr (b, src) \<longleftrightarrow>
   rd = Inr src \<and> (\<exists>ast. Parse src = Inr ast \<and> list_all (wt_rule u) (pn_rules ast) \<and>
     b = \<lparr>b_tenant_id = pn_tenant_id ast, b_rules = map (rule_of u) (pn_rules ast)\<rparr>)"
proof -
  have ok: "Compile u ast = (if list_all (wt_rule u) (pn_rules ast) then Inr (map (rule_of u) (pn_rules ast))
      else Inl (projl (Compile u ast)))" for ast
    using Compile_iff [of u ast] by (cases "Compile u ast") auto
  show ?thesis
    by (subst load_def, subst ok) (auto split: sum.split)
qed

lemma w_emit_bundle [simp]: "w_bundle (w_emit lv msg w) = w_bundle w"
  by (simp add: w_emit_def)

lemma publish_bundle [simp]: "w_bundle (publishToCache c w) = w_bundle w"
  by (cases c) (simp_all add: publishToCache_def)

lemma start_watch_bundle [simp]: "w_bundle (start_watch fs w) = w_bundle w"
  by (cases fs) (simp_all add: start_watch_def)

text \<open>The bundle an input leaves active, when the active one was \<open>b\<close>.\<close>

definition next_bundle :: "unicode_tables \<Rightarrow> watch_input \<Rightarrow> policy_bundle \<Rightarrow> policy_bundle" where
  "next_bundle u i b =
     (case i of
        FsEvent ops rd c \<Rightarrow>
          if FsWrite \<in> set ops \<or> FsCreate \<in> set ops
          then (case load u rd of Inl _ \<Rightarrow> b | Inr (b', _) \<Rightarrow> b') else b
      | _ \<Rightarrow> b)"

lemma watch_iter_bundle: "w_bundle (watch_iter u i w) = next_bundle u i (w_bundle w)"
  by (cases i) (auto simp: watch_iter_def next_bundle_def reload_def split: sum.split)

lemma watch_run_bundle: "watch_run u w is w' \<Longrightarrow> w_bundle w' = fold (next_bundle u) is (w_bundle w)"
  by (induction rule: watch_run.induct) (auto elim: watch_stepE simp: watch_iter_bundle)

text \<open>Well-formed bundles: the compilation of some source.\<close>

definition bundle_of_source :: "unicode_tables \<Rightarrow> policy_bundle \<Rightarrow> bytes \<Rightarrow> bool" where
  "bundle_of_source u b src \<longleftrightarrow> load u (Inr src) = Inr (b, src)"

lemma load_source: "load u rd = Inr (b, src) \<Longrightarrow> bundle_of_source u b src"
  unfolding bundle_of_source_def load_Inr by blast

lemma next_bundle_source:
  "bundle_of_source u b src \<Longrightarrow> \<exists>src'. bundle_of_source u (next_bundle u i b) src'"
  by (cases i) (auto simp: next_bundle_def dest: load_source split: sum.split)

lemma NewWatcher_source: "NewWatcher u lv rd c fs = Inr w \<Longrightarrow> \<exists>src. bundle_of_source u (w_bundle w) src"
  unfolding NewWatcher_def
  by (cases "load u rd") (auto intro!: exI dest: load_source split: prod.split_asm)

lemma fold_source:
  "bundle_of_source u b src \<Longrightarrow> \<exists>src'. bundle_of_source u (fold (next_bundle u) is b) src'"
proof (induction "is" arbitrary: b src)
  case (Cons i "is")
  obtain src' where "bundle_of_source u (next_bundle u i b) src'" using next_bundle_source [OF Cons.prems] ..
  from Cons.IH [OF this] show ?case by simp
qed auto

text \<open>A source, for the witnesses.\<close>

definition sample_bundle :: policy_bundle where
  "sample_bundle =
     \<lparr>b_tenant_id = ''acme-corp'', b_rules = map (rule_of no_case) (pn_rules sample_policy)\<rparr>"

lemma load_sample: "load no_case (Inr (print_policy sample_policy)) = Inr (sample_bundle, print_policy sample_policy)"
proof -
  have "pn_tenant_id sample_policy = ''acme-corp''" by (simp add: sample_policy_def)
  with Parse_print [OF wf_sample] wt_sample show ?thesis by (simp add: load_Inr sample_bundle_def)
qed

lemma load_garbage: "load u (Inr ''policy'') = Inl (ParseFailed (ExpectedTenant 1 []))"
proof -
  have "Parse ''policy'' = Inl (ExpectedTenant 1 [])" by code_simp
  then show ?thesis by (simp add: load_def)
qed

definition sample_watcher :: watcher where
  "sample_watcher = \<lparr>w_bundle = sample_bundle, w_running = True, w_level = LevelInfo,
     w_log = log_event LevelInfo LevelInfo ''policy_watcher_started''\<rparr>"

lemma NewWatcher_sample:
  "NewWatcher no_case LevelInfo (Inr (print_policy sample_policy)) NoCache SetupOK = Inr sample_watcher"
  by (simp add: NewWatcher_def load_sample start_watch_def publishToCache_def w_emit_def sample_watcher_def)

subsection \<open>Properties\<close>

text \<open>
  C9: requests never see a half-loaded policy.  In every state of every run of the watcher,
  whatever happens to the file, the active bundle is the complete compilation of one
  source: some text that parsed, all of whose rules are well typed, with the tenant and
  exactly the rules of that text.
\<close>

theorem active_bundle_complete:
  assumes "NewWatcher u lv rd c fs = Inr w" and "watch_run u w is w'"
  shows "\<exists>src ast. Parse src = Inr ast \<and> Compile u ast = Inr (b_rules (w_bundle w')) \<and>
    b_tenant_id (w_bundle w') = pn_tenant_id ast"
proof -
  obtain src where "bundle_of_source u (w_bundle w') src"
    using NewWatcher_source [OF assms(1)] fold_source watch_run_bundle [OF assms(2)] by metis
  then obtain ast where "Parse src = Inr ast" "list_all (wt_rule u) (pn_rules ast)"
    "w_bundle w' = \<lparr>b_tenant_id = pn_tenant_id ast, b_rules = map (rule_of u) (pn_rules ast)\<rparr>"
    by (auto simp: bundle_of_source_def load_Inr)
  then show ?thesis by (intro exI [of _ src] exI [of _ ast]) (simp add: Compile_iff)
qed

lemma sample_run:
  "watch_run no_case sample_watcher [FsEvent [FsWrite] (Inr ''policy'') NoCache]
     (watch_iter no_case (FsEvent [FsWrite] (Inr ''policy'') NoCache) sample_watcher)"
  using watch_run.snoc [OF watch_run.refl watch_step.step, of sample_watcher no_case]
  by (simp add: sample_watcher_def)

lemma active_bundle_complete_witness:
  "\<exists>src ast. Parse src = Inr ast \<and>
     Compile no_case ast = Inr (b_rules (w_bundle
       (watch_iter no_case (FsEvent [FsWrite] (Inr ''policy'') NoCache) sample_watcher))) \<and>
     b_tenant_id (w_bundle (watch_iter no_case (FsEvent [FsWrite] (Inr ''policy'') NoCache) sample_watcher)) =
       pn_tenant_id ast"
  by (rule active_bundle_complete [OF NewWatcher_sample sample_run])

text \<open>
  A bad file never takes the policy down.  A reload of a file that cannot be read, parsed
  or compiled leaves the active bundle and the running loop as they are and adds one error
  entry to the log.
\<close>

theorem bad_reload_keeps_policy:
  assumes "load u rd = Inl e"
  shows "watch_iter u (FsEvent ops rd c) w =
    (if FsWrite \<in> set ops \<or> FsCreate \<in> set ops then w_emit LevelError ''policy_reload_failed'' w else w)"
  using assms by (simp add: watch_iter_def reload_def)

lemma bad_reload_keeps_policy_witness:
  "watch_iter no_case (FsEvent [FsChmod, FsWrite] (Inr ''policy'') NoCache) sample_watcher =
   (if FsWrite \<in> set [FsChmod, FsWrite] \<or> FsCreate \<in> set [FsChmod, FsWrite]
    then w_emit LevelError ''policy_reload_failed'' sample_watcher else sample_watcher)"
  by (rule bad_reload_keeps_policy [OF load_garbage])

text \<open>What an input loads, if anything.\<close>

definition loaded_by :: "unicode_tables \<Rightarrow> watch_input \<Rightarrow> policy_bundle option" where
  "loaded_by u i =
     (case i of
        FsEvent ops rd c \<Rightarrow>
          if FsWrite \<in> set ops \<or> FsCreate \<in> set ops
          then (case load u rd of Inl _ \<Rightarrow> None | Inr (b, _) \<Rightarrow> Some b) else None
      | _ \<Rightarrow> None)"

lemma next_bundle_loaded: "next_bundle u i b = (case loaded_by u i of None \<Rightarrow> b | Some b' \<Rightarrow> b')"
  by (cases i) (auto simp: next_bundle_def loaded_by_def split: sum.split)

lemma fold_next_bundle: "fold (next_bundle u) is b = last (b # List.map_filter (loaded_by u) is)"
  by (induction "is" arbitrary: b) (auto simp: next_bundle_loaded split: option.split)

text \<open>
  C29: the newest good version is active.  After any run, the active bundle is the result of
  the last write or create event whose file loaded, and the initial one when there was
  none; failed reloads, other events and watcher errors in between change nothing.
\<close>

theorem newest_good_version:
  assumes "watch_run u w is w'"
  shows "w_bundle w' = last (w_bundle w # List.map_filter (loaded_by u) is)"
  by (simp only: watch_run_bundle [OF assms] fold_next_bundle)

lemma newest_good_version_witness:
  "w_bundle (watch_iter no_case (FsEvent [FsWrite] (Inr ''policy'') NoCache) sample_watcher) =
   last (w_bundle sample_watcher # List.map_filter (loaded_by no_case) [FsEvent [FsWrite] (Inr ''policy'') NoCache])"
  by (rule newest_good_version [OF sample_run])

text \<open>The inputs that end the loop, and the part of a sequence of inputs the loop receives.\<close>

definition stops :: "watch_input \<Rightarrow> bool" where
  "stops i \<longleftrightarrow> i \<in> {WatchDone, FsEventsClosed, FsErrorsClosed}"

fun received :: "watch_input list \<Rightarrow> watch_input list" where
  "received [] = []"
| "received (i # is) = (if stops i then [i] else i # received is)"

lemma publish_running [simp]: "w_running (publishToCache c w) = w_running w"
  by (cases c) (simp_all add: publishToCache_def w_emit_def)

lemma watch_iter_running: "w_running (watch_iter u i w) \<longleftrightarrow> w_running w \<and> \<not> stops i"
  by (cases i) (auto simp: watch_iter_def stops_def reload_def w_emit_def split: sum.split)

lemma watch_run_Cons: "watch_step u w i w1 \<Longrightarrow> watch_run u w1 is w' \<Longrightarrow> watch_run u w (i # is) w'"
proof (rotate_tac, induction rule: watch_run.induct)
  case (refl w1)
  then show ?case using watch_run.snoc [OF watch_run.refl, of u w i w1] by simp
next
  case (snoc w1 "is" w' j w'')
  then show ?case using watch_run.snoc [of u w "i # is" w' j w''] by simp
qed

lemma watch_run_fold: "watch_run u w is w' \<Longrightarrow> w' = fold (watch_iter u) is w"
  by (induction rule: watch_run.induct) (auto elim: watch_stepE)

lemma received_run:
  "w_running w \<Longrightarrow> watch_run u w (received is) (fold (watch_iter u) (received is) w)"
proof (induction "is" arbitrary: w)
  case (Cons i "is")
  note step = watch_step.step [OF Cons.prems, of u i]
  show ?case
  proof (cases "stops i")
    case True
    then show ?thesis using watch_run_Cons [OF step watch_run.refl] by simp
  next
    case False
    then show ?thesis
      using watch_run_Cons [OF step Cons.IH [of "watch_iter u i w"]] Cons.prems
      by (simp add: watch_iter_running)
  qed
qed (simp add: watch_run.refl)

lemma received_running:
  "w_running (fold (watch_iter u) (received is) w) \<longleftrightarrow> w_running w \<and> list_all (\<lambda>i. \<not> stops i) is"
  by (induction "is" arbitrary: w) (auto simp: watch_iter_running)

text \<open>
  C30: the watcher stops, and only when it is told to.  Whatever inputs are on offer, the loop
  takes them one after the other up to and including the first that ends it (the
  cancelled context or one of fsnotify's closed channels), ends in exactly one state, is
  still running exactly when none of the inputs ends it, and takes no input after the end.
  Unreadable files, bad policies, watcher errors and a failing cache never stop it.
\<close>

theorem watch_terminates:
  assumes "w_running w"
  shows "\<exists>!w'. watch_run u w (received is) w' \<and>
    (w_running w' \<longleftrightarrow> list_all (\<lambda>i. \<not> stops i) is) \<and>
    (w_running w' \<or> (\<nexists>i w''. watch_step u w' i w''))"
proof (rule ex1I)
  let ?w = "fold (watch_iter u) (received is) w"
  show "watch_run u w (received is) ?w \<and> (w_running ?w \<longleftrightarrow> list_all (\<lambda>i. \<not> stops i) is) \<and>
    (w_running ?w \<or> (\<nexists>i w''. watch_step u ?w i w''))"
    using received_run [OF assms] received_running [of u "is" w] assms by (auto elim: watch_stepE)
next
  fix w'
  assume "watch_run u w (received is) w' \<and> (w_running w' \<longleftrightarrow> list_all (\<lambda>i. \<not> stops i) is) \<and>
    (w_running w' \<or> (\<nexists>i w''. watch_step u w' i w''))"
  then show "w' = fold (watch_iter u) (received is) w" by (simp add: watch_run_fold)
qed

lemma watch_terminates_witness:
  "\<exists>!w'. watch_run no_case sample_watcher (received [FsEvent [FsWrite] (Inr ''policy'') NoCache, FsErrorsClosed, WatchDone]) w' \<and>
    (w_running w' \<longleftrightarrow> list_all (\<lambda>i. \<not> stops i) [FsEvent [FsWrite] (Inr ''policy'') NoCache, FsErrorsClosed, WatchDone]) \<and>
    (w_running w' \<or> (\<nexists>i w''. watch_step no_case w' i w''))"
  by (rule watch_terminates) (simp add: sample_watcher_def)

end
