(* ===== verification/Go_Regexp.thy ===== *)
theory Go_Regexp
  imports Go_Text
begin

text \<open>
  The part of Go's \<open>regexp\<close> package the program uses: concatenation, alternation, greedy
  repetition, character classes and \<open>\b\<close>, with the leftmost-first choice among matches.
  \<open>ends r c\<close> lists, in the order of preference, the positions where a match of \<open>r\<close> that
  starts at \<open>c\<close> can end.  The relation \<open>re_match\<close> says declaratively what a match is, and
  \<open>ends\<close> is proved to compute it.  \<open>find_all\<close> is the loop of \<open>FindAllString\<close>.
\<close>

datatype re =
    REmpty
  | RSet "(rune \<times> rune) list"
  | RBound
  | RSeq re re
  | RAlt re re
  | ROpt re
  | RStar re

text \<open>A position: the rune before it, if any, and the runes after it.\<close>

type_synonym position = "rune option \<times> rune list"

definition in_ranges :: "rune \<Rightarrow> (rune \<times> rune) list \<Rightarrow> bool" where
  "in_ranges x rs \<longleftrightarrow> list_ex (\<lambda>(lo, hi). lo \<le> x \<and> x \<le> hi) rs"

definition is_word_rune :: "rune \<Rightarrow> bool" where
  "is_word_rune r \<longleftrightarrow> 48 \<le> r \<and> r \<le> 57 \<or> 65 \<le> r \<and> r \<le> 90 \<or> r = 95 \<or> 97 \<le> r \<and> r \<le> 122"

text \<open>\<open>\b\<close>: a word rune on exactly one side.\<close>

definition at_boundary :: "position \<Rightarrow> bool" where
  "at_boundary c \<longleftrightarrow>
     (case fst c of None \<Rightarrow> False | Some r \<Rightarrow> is_word_rune r) \<noteq>
     (case snd c of [] \<Rightarrow> False | r # _ \<Rightarrow> is_word_rune r)"

subsection \<open>Matches, declaratively\<close>

inductive re_match :: "re \<Rightarrow> position \<Rightarrow> position \<Rightarrow> bool" where
  empty: "re_match REmpty c c"
| set: "in_ranges x rs \<Longrightarrow> re_match (RSet rs) (p, x # xs) (Some x, xs)"
| bound: "at_boundary c \<Longrightarrow> re_match RBound c c"
| seq: "re_match a c d \<Longrightarrow> re_match b d e \<Longrightarrow> re_match (RSeq a b) c e"
| alt1: "re_match a c d \<Longrightarrow> re_match (RAlt a b) c d"
| alt2: "re_match b c d \<Longrightarrow> re_match (RAlt a b) c d"
| opt0: "re_match (ROpt a) c c"
| opt1: "re_match a c d \<Longrightarrow> re_match (ROpt a) c d"
| star0: "re_match (RStar a) c c"
| star1: "re_match a c d \<Longrightarrow> re_match (RStar a) d e \<Longrightarrow> re_match (RStar a) c e"

inductive_simps re_match_simps:
  "re_match REmpty c d"
  "re_match (RSet rs) c d"
  "re_match RBound c d"
  "re_match (RSeq a b) c d"
  "re_match (RAlt a b) c d"
  "re_match (ROpt a) c d"

text \<open>A match moves forward or stays where it is.\<close>

definition reaches :: "position \<Rightarrow> position \<Rightarrow> bool" where
  "reaches c d \<longleftrightarrow> d = c \<or> length (snd d) < length (snd c)"

lemma reaches_trans: "reaches c d \<Longrightarrow> reaches d e \<Longrightarrow> reaches c e"
  by (auto simp: reaches_def)

lemma re_match_reaches: "re_match r c d \<Longrightarrow> reaches c d"
  by (induction rule: re_match.induct) (auto intro: reaches_trans simp: reaches_def)

subsection \<open>Matches, computed\<close>

function (sequential) ends :: "re \<Rightarrow> position \<Rightarrow> position list" where
  "ends REmpty c = [c]"
| "ends (RSet rs) (p, []) = []"
| "ends (RSet rs) (p, x # xs) = (if in_ranges x rs then [(Some x, xs)] else [])"
| "ends RBound c = (if at_boundary c then [c] else [])"
| "ends (RSeq a b) c = concat (map (ends b) (ends a c))"
| "ends (RAlt a b) c = ends a c @ ends b c"
| "ends (ROpt a) c = ends a c @ [c]"
| "ends (RStar a) c =
     concat (map (\<lambda>d. if length (snd d) < length (snd c) then ends (RStar a) d else []) (ends a c)) @ [c]"
  by pat_completeness auto
termination
  by (relation "measures [\<lambda>(r, c). size r, \<lambda>(r, c). length (snd c)]") auto

declare ends.simps(8) [simp del]

lemma ends_star:
  "e \<in> set (ends (RStar a) c) \<longleftrightarrow>
     e = c \<or> (\<exists>d \<in> set (ends a c). length (snd d) < length (snd c) \<and> e \<in> set (ends (RStar a) d))"
  by (subst ends.simps) auto

lemma ends_sound: "d \<in> set (ends r c) \<Longrightarrow> re_match r c d"
proof (induction r c arbitrary: d rule: ends.induct)
  case (3 rs p x xs)
  then show ?case by (auto intro: re_match.set split: if_split_asm)
next
  case (4 c)
  then show ?case by (auto intro: re_match.bound split: if_split_asm)
next
  case (5 a b c)
  then obtain e where "e \<in> set (ends a c)" "d \<in> set (ends b e)" by auto
  with 5 show ?case by (blast intro: re_match.seq)
next
  case (6 a b c)
  then consider "d \<in> set (ends a c)" | "d \<in> set (ends b c)" by auto
  then show ?case by cases (use 6 in \<open>blast intro: re_match.alt1 re_match.alt2\<close>)+
next
  case (7 a c)
  then consider "d = c" | "d \<in> set (ends a c)" by auto
  then show ?case by cases (use 7 in \<open>blast intro: re_match.opt0 re_match.opt1\<close>)+
next
  case (8 a c)
  from 8(3) consider "d = c" | e where "e \<in> set (ends a c)" "length (snd e) < length (snd c)"
    "d \<in> set (ends (RStar a) e)"
    using ends_star [of d a c] by blast
  then show ?case
  proof cases
    case 1
    then show ?thesis by (simp add: re_match.star0)
  next
    case (2 e)
    with 8 show ?thesis by (blast intro: re_match.star1)
  qed
qed (auto intro: re_match.empty)

lemma ends_complete: "re_match r c d \<Longrightarrow> d \<in> set (ends r c)"
proof (induction rule: re_match.induct)
  case (star0 a c)
  show ?case using ends_star [of c a c] by simp
next
  case (star1 a c d e)
  then have "reaches c d" by (blast dest: re_match_reaches)
  then show ?case
  proof (cases "d = c")
    case False
    with \<open>reaches c d\<close> have "length (snd d) < length (snd c)" by (simp add: reaches_def)
    with star1 show ?thesis using ends_star [of e a c] by blast
  qed (use star1 in simp)
qed auto

lemma ends_iff: "d \<in> set (ends r c) \<longleftrightarrow> re_match r c d"
  using ends_sound ends_complete by blast

text \<open>The leftmost match at or after a position, as its start and end.\<close>

fun find_from :: "re \<Rightarrow> rune option \<Rightarrow> rune list \<Rightarrow> (position \<times> position) option" where
  "find_from r p [] =
     (case ends r (p, []) of [] \<Rightarrow> None | e # _ \<Rightarrow> Some ((p, []), e))"
| "find_from r p (x # xs) =
     (case ends r (p, x # xs) of
        [] \<Rightarrow> find_from r (Some x) xs
      | e # _ \<Rightarrow> Some ((p, x # xs), e))"

lemma ends_reaches: "ends r c = e # es \<Longrightarrow> reaches c e"
  using ends_sound [of e r c] re_match_reaches [of r c e] by (simp only: list.set_intros)

lemma find_from_reaches:
  "find_from r p xs = Some (s, e) \<Longrightarrow>
   length (snd s) \<le> length xs \<and> reaches s e \<and> (s = (p, xs) \<or> length (snd s) < length xs)"
proof (induction xs arbitrary: p)
  case Nil
  show ?case
  proof (cases "ends r (p, [])")
    case (Cons d ds)
    with Nil ends_reaches [OF Cons] show ?thesis by auto
  qed (use Nil in simp)
next
  case (Cons x xs)
  show ?case
  proof (cases "ends r (p, x # xs)")
    case Nil
    with Cons.prems have "find_from r (Some x) xs = Some (s, e)" by simp
    with Cons.IH show ?thesis by fastforce
  next
    case (Cons d ds)
    with Cons.prems ends_reaches [OF Cons] show ?thesis by auto
  qed
qed

text \<open>\<open>Regexp.Match\<close>: some position has a match.\<close>

definition re_test :: "re \<Rightarrow> rune list \<Rightarrow> bool" where
  "re_test r xs \<longleftrightarrow> find_from r None xs \<noteq> None"

text \<open>
  The loop of \<open>FindAllString\<close>.  \<open>prev\<close> is the end of the previous match, as the number of
  runes after it: an empty match right there is not reported.
\<close>

function find_all :: "re \<Rightarrow> nat option \<Rightarrow> rune option \<Rightarrow> rune list \<Rightarrow> (position \<times> position) list" where
  "find_all r prev p xs =
     (case find_from r p xs of
        None \<Rightarrow> []
      | Some (s, e) \<Rightarrow>
          (let n = Some (length (snd e))
           in if length (snd e) = length xs then
                (if prev = Some (length (snd s)) then [] else [(s, e)]) @
                (case xs of [] \<Rightarrow> [] | y # ys \<Rightarrow> find_all r n (Some y) ys)
              else (s, e) # find_all r n (fst e) (snd e)))"
  by pat_completeness auto
termination
proof (relation "measure (\<lambda>(r, prev, p, xs). length xs)", goal_cases)
  case (3 r prev p xs x s e n)
  then have "find_from r p xs = Some (s, e)" by simp
  then have "length (snd e) \<le> length xs" by (auto dest!: find_from_reaches simp: reaches_def)
  with 3 show ?case by (auto simp: case_prod_beta)
qed simp_all

declare find_all.simps [simp del]

definition count_matches :: "re \<Rightarrow> string \<Rightarrow> nat" where
  "count_matches r s = length (find_all r None None (runes s))"

subsection \<open>Testing, declaratively\<close>

lemma find_from_iff:
  "find_from r p xs \<noteq> None \<longleftrightarrow>
   (\<exists>ys zs e. xs = ys @ zs \<and> re_match r (if ys = [] then p else Some (last ys), zs) e)"
proof (induction xs arbitrary: p)
  case Nil
  then show ?case by (auto simp: ends_iff [symmetric] split: list.split)
next
  case (Cons x xs)
  show ?case
  proof (cases "ends r (p, x # xs)")
    case Nil
    then have no: "\<not> re_match r (p, x # xs) e" for e by (simp flip: ends_iff)
    have "(\<exists>ys zs e. x # xs = ys @ zs \<and> re_match r (if ys = [] then p else Some (last ys), zs) e) \<longleftrightarrow>
      (\<exists>ys zs e. xs = ys @ zs \<and> re_match r (if ys = [] then Some x else Some (last ys), zs) e)"
      (is "?l \<longleftrightarrow> ?r")
    proof
      assume ?l
      then obtain ys zs e where *: "x # xs = ys @ zs" "re_match r (if ys = [] then p else Some (last ys), zs) e"
        by blast
      have "ys \<noteq> []"
      proof
        assume "ys = []"
        with * have "re_match r (p, x # xs) e" by simp
        with no show False by blast
      qed
      with * obtain ys' where "ys = x # ys'" "xs = ys' @ zs" by (cases ys) auto
      with * show ?r by (intro exI [of _ ys'] exI [of _ zs] exI [of _ e]) (auto split: if_split_asm)
    next
      assume ?r
      then obtain ys zs e where *: "xs = ys @ zs" "re_match r (if ys = [] then Some x else Some (last ys), zs) e"
        by blast
      then show ?l by (intro exI [of _ "x # ys"] exI [of _ zs] exI [of _ e]) auto
    qed
    with Nil Cons show ?thesis by simp
  next
    case (Cons d ds)
    then have "re_match r (p, x # xs) d" using ends_sound [of d] by simp
    then have "\<exists>ys zs e. x # xs = ys @ zs \<and> re_match r (if ys = [] then p else Some (last ys), zs) e"
      by (intro exI [of _ "[]"] exI [of _ "x # xs"] exI [of _ d]) simp
    with Cons show ?thesis by simp
  qed
qed

text \<open>A position inside a text: the rune before it is the last one already read.\<close>

definition pos_at :: "rune list \<Rightarrow> rune list \<Rightarrow> position" where
  "pos_at ys zs = (if ys = [] then None else Some (last ys), zs)"

lemma re_test_iff: "re_test r xs \<longleftrightarrow> (\<exists>ys zs e. xs = ys @ zs \<and> re_match r (pos_at ys zs) e)"
  unfolding re_test_def find_from_iff pos_at_def ..

text \<open>
  A pattern without \<open>\b\<close> does not look at its surroundings: a match inside a text is a
  match inside every longer text.
\<close>

fun no_bound :: "re \<Rightarrow> bool" where
  "no_bound RBound = False"
| "no_bound (RSeq a b) = (no_bound a \<and> no_bound b)"
| "no_bound (RAlt a b) = (no_bound a \<and> no_bound b)"
| "no_bound (ROpt a) = no_bound a"
| "no_bound (RStar a) = no_bound a"
| "no_bound _ = True"

lemma re_match_context:
  "re_match r c d \<Longrightarrow> no_bound r \<Longrightarrow> \<exists>q. re_match r (p, snd c @ zs) (q, snd d @ zs)"
proof (induction arbitrary: p rule: re_match.induct)
  case (seq a c d b e)
  then obtain q where "re_match a (p, snd c @ zs) (q, snd d @ zs)" by fastforce
  moreover obtain q' where "re_match b (q, snd d @ zs) (q', snd e @ zs)" using seq by fastforce
  ultimately show ?case by (blast intro: re_match.seq)
next
  case (star1 a c d e)
  then obtain q where "re_match a (p, snd c @ zs) (q, snd d @ zs)" by fastforce
  moreover obtain q' where "re_match (RStar a) (q, snd d @ zs) (q', snd e @ zs)" using star1 by fastforce
  ultimately show ?case by (blast intro: re_match.star1)
qed (auto intro: re_match.intros)

lemma re_test_context:
  assumes "no_bound r" and "re_test r xs"
  shows "re_test r (as @ xs @ bs)"
proof -
  from assms(2) obtain ys zs e where *: "xs = ys @ zs" "re_match r (pos_at ys zs) e"
    unfolding re_test_iff by blast
  obtain q where "re_match r (fst (pos_at (as @ ys) zs), snd (pos_at ys zs) @ bs) (q, snd e @ bs)"
    using re_match_context [OF *(2) assms(1)] by blast
  then have "re_match r (pos_at (as @ ys) (zs @ bs)) (q, snd e @ bs)" by (simp add: pos_at_def)
  with *(1) show ?thesis unfolding re_test_iff by (metis append.assoc)
qed

subsection \<open>Building patterns\<close>

definition re_seqs :: "re list \<Rightarrow> re" where
  "re_seqs rs = foldr RSeq rs REmpty"

fun re_alts :: "re list \<Rightarrow> re" where
  "re_alts [] = RSet []"
| "re_alts [r] = r"
| "re_alts (r # rs) = RAlt r (re_alts rs)"

definition re_plus :: "re \<Rightarrow> re" where
  "re_plus r = RSeq r (RStar r)"

fun re_times :: "nat \<Rightarrow> re \<Rightarrow> re \<Rightarrow> re" where
  "re_times 0 r k = k"
| "re_times (Suc n) r k = RSeq r (re_times n r k)"

text \<open>\<open>r{0,m}\<close>, greedy, as the package expands it: \<open>(r(r(\<dots>)?)?)?\<close>.\<close>

fun re_upto :: "nat \<Rightarrow> re \<Rightarrow> re" where
  "re_upto 0 r = REmpty"
| "re_upto (Suc n) r = ROpt (RSeq r (re_upto n r))"

definition re_exactly :: "nat \<Rightarrow> re \<Rightarrow> re" where
  "re_exactly n r = re_times n r REmpty"

definition re_at_least :: "nat \<Rightarrow> re \<Rightarrow> re" where
  "re_at_least n r = re_times n r (RStar r)"

definition re_between :: "nat \<Rightarrow> nat \<Rightarrow> re \<Rightarrow> re" where
  "re_between n m r = re_times n r (re_upto (m - n) r)"

definition re_char :: "char \<Rightarrow> re" where
  "re_char c = RSet [(byte_val c, byte_val c)]"

definition re_lit :: "string \<Rightarrow> re" where
  "re_lit s = re_seqs (map re_char s)"

text \<open>
  A letter under \<open>(?i)\<close>: both cases, and the runes outside ASCII that fold to it, the Kelvin
  sign for \<open>k\<close> and the long s for \<open>s\<close>.
\<close>

definition fold_set :: "char \<Rightarrow> (rune \<times> rune) list" where
  "fold_set c =
     (let l = byte_val (lower_byte c)
      in if 97 \<le> l \<and> l \<le> 122
         then [(l, l), (l - 32, l - 32)] @
              (if l = 107 then [(0x212A, 0x212A)] else if l = 115 then [(0x17F, 0x17F)] else [])
         else [(byte_val c, byte_val c)])"

definition re_ci :: "string \<Rightarrow> re" where
  "re_ci s = re_seqs (map (\<lambda>c. RSet (fold_set c)) s)"

definition re_space :: re where
  "re_space = RSet [(9, 10), (12, 13), (32, 32)]"

definition re_digit :: re where
  "re_digit = RSet [(48, 57)]"

text \<open>\<open>.\<close> matches everything but a newline.\<close>

definition re_dot :: re where
  "re_dot = RSet [(0, 9), (11, 0x10FFFF)]"

abbreviation re_spaces :: re where "re_spaces \<equiv> re_plus re_space"

end
