(* ===== verification/Go_Io.thy ===== *)
theory Go_Io
  imports Go_Base
begin

text \<open>
  The interfaces of \<open>io\<close> and \<open>bufio\<close> the program is written against.  An \<open>io.Writer\<close> is a
  state with a write operation that returns the number of bytes accepted and an optional
  error; the locale \<open>io_writer\<close> is the documented contract of \<open>Write\<close>.  A counting writer
  (\<open>countWriter\<close> of \<open>internal/gateway/gateway.go\<close>) keeps that contract.  \<open>scan_lines\<close> is a
  \<open>bufio.Scanner\<close> with its default split function and buffer limit.
\<close>

subsection \<open>Writers\<close>

type_synonym ('w, 'e) writer = "'w \<Rightarrow> bytes \<Rightarrow> 'w \<times> nat \<times> 'e option"

text \<open>
  \<open>Write\<close> returns \<open>0 <= n <= len(p)\<close>, the number of bytes written, and an error if \<open>n\<close> is
  less than \<open>len(p)\<close>.  \<open>content\<close> is what has been written so far.
\<close>

locale io_writer =
  fixes wr :: "('w, 'e) writer" and content :: "'w \<Rightarrow> bytes"
  assumes writes: "wr d p = (d', n, err) \<Longrightarrow> n \<le> length p \<and> content d' = content d @ take n p"
    and short_write: "wr d p = (d', n, None) \<Longrightarrow> n = length p"
begin

lemma write_ok: "wr d p = (d', n, None) \<Longrightarrow> content d' = content d @ p"
  using writes [of d p d' n None] short_write [of d p d' n] by simp

lemma write_prefix: "wr d p = (d', n, err) \<Longrightarrow> \<exists>k \<le> length p. content d' = content d @ take k p"
  using writes by blast

end

text \<open>\<open>bytes.Buffer\<close>: a write never fails.\<close>

definition buffer_write :: "bytes \<Rightarrow> bytes \<Rightarrow> bytes \<times> nat \<times> unit option" where
  "buffer_write b p = (b @ p, length p, None)"

interpretation bytes_buffer: io_writer buffer_write id
  by unfold_locales (auto simp: buffer_write_def)

subsection \<open>Counting writer\<close>

record 'w countWriter =
  cw_dst :: 'w
  cw_written :: nat

definition countWriter_Write :: "('w, 'e) writer \<Rightarrow> ('w countWriter, 'e) writer" where
  "countWriter_Write wr cw p =
     (let (dst, n, err) = wr (cw_dst cw) p
      in (cw\<lparr>cw_dst := dst, cw_written := cw_written cw + n\<rparr>, n, err))"

context io_writer
begin

lemma counting_writer: "io_writer (countWriter_Write wr) (\<lambda>cw. content (cw_dst cw))"
proof
  fix d p d' n err
  assume "countWriter_Write wr d p = (d', n, err)"
  then obtain dst where "wr (cw_dst d) p = (dst, n, err)" "cw_dst d' = dst"
    by (auto simp: countWriter_Write_def split: prod.split_asm)
  then show "n \<le> length p \<and> content (cw_dst d') = content (cw_dst d) @ take n p"
    using writes by simp
next
  fix d p d' n
  assume "countWriter_Write wr d p = (d', n, None)"
  then show "n = length p"
    by (auto simp: countWriter_Write_def split: prod.split_asm dest: short_write)
qed

lemma counts:
  "countWriter_Write wr cw p = (cw', n, err) \<Longrightarrow>
   cw_written cw' = cw_written cw + n \<and> length (content (cw_dst cw')) = length (content (cw_dst cw)) + n"
  using writes [of "cw_dst cw" p] by (auto simp: countWriter_Write_def split: prod.split_asm)

end

interpretation counted_buffer: io_writer "countWriter_Write buffer_write" "\<lambda>cw. id (cw_dst cw)"
  by (rule bytes_buffer.counting_writer)

subsection \<open>Line scanner\<close>

text \<open>
  \<open>bufio.ScanLines\<close>: the text up to a newline, without one trailing carriage return; the
  last line may end without a newline.  The buffer holds 64 KB, so a line of 65536 bytes
  or more stops the scan with \<open>bufio.ErrTooLong\<close> (the flag of the result).
\<close>

definition max_line :: nat where "max_line = 65536"

definition drop_cr :: "bytes \<Rightarrow> bytes" where
  "drop_cr s = (if s \<noteq> [] \<and> last s = CR then butlast s else s)"

function scan_lines :: "bytes \<Rightarrow> bytes list \<times> bool" where
  "scan_lines s =
     (if s = [] then ([], False)
      else
        (let line = takeWhile (\<lambda>c. c \<noteq> NL) s; rest = dropWhile (\<lambda>c. c \<noteq> NL) s
         in if max_line \<le> length line then ([], True)
            else if rest = [] then ([drop_cr line], False)
            else (let (ls, e) = scan_lines (tl rest) in (drop_cr line # ls, e))))"
  by pat_completeness auto
termination
proof (relation "measure length", goal_cases)
  case (2 s line rest)
  then have "length rest \<le> length s" by (simp add: length_dropWhile_le)
  moreover have "0 < length s" using 2(1) by simp
  ultimately have "length rest - 1 < length s" by linarith
  then show ?case by simp
qed simp

declare scan_lines.simps [simp del]

lemma scan_lines_Nil [simp]: "scan_lines [] = ([], False)"
  by (simp add: scan_lines.simps)

lemma scan_lines_line:
  assumes "NL \<notin> set l" and "length l < max_line"
  shows "scan_lines (l @ NL # s) = (drop_cr l # fst (scan_lines s), snd (scan_lines s))"
proof -
  have "takeWhile (\<lambda>c. c \<noteq> NL) (l @ NL # s) = l" "dropWhile (\<lambda>c. c \<noteq> NL) (l @ NL # s) = NL # s"
    using assms(1) by (auto intro!: takeWhile_append_stop dropWhile_append_stop)
  with assms(2) show ?thesis
    by (subst scan_lines.simps) (simp add: Let_def split: prod.split)
qed

end
