(* ===== verification/Go_Strconv.thy ===== *)
theory Go_Strconv
  imports Go_Base
begin

text \<open>
  Decimal integers, the functions of \<open>strconv\<close> and \<open>fmt\<close> the program calls: \<open>Itoa\<close> and the
  verb \<open>%d\<close>, \<open>ParseInt(s, 10, 64)\<close> and \<open>Atoi\<close>, whose results agree where an \<open>int\<close> has 64
  bits.  An error is \<open>None\<close>.
\<close>

subsection \<open>Printing\<close>

function decimal :: "int \<Rightarrow> string" where
  "decimal n = (if n < 10 then [char_of (48 + n)] else decimal (n div 10) @ [char_of (48 + n mod 10)])"
  by pat_completeness auto
termination
  by (relation "measure nat") auto

declare decimal.simps [simp del]

definition itoa :: "int \<Rightarrow> string" where
  "itoa n = (if n < 0 then ''-'' @ decimal (- n) else decimal n)"

subsection \<open>Parsing\<close>

definition int64_ok :: "int \<Rightarrow> bool" where
  "int64_ok n \<longleftrightarrow> - (2 ^ 63) \<le> n \<and> n < 2 ^ 63"

fun digits_value :: "int \<Rightarrow> string \<Rightarrow> int" where
  "digits_value acc [] = acc"
| "digits_value acc (c # cs) = digits_value (10 * acc + digit_val c) cs"

definition parse_int :: "string \<Rightarrow> int option" where
  "parse_int s =
     (let neg = (s \<noteq> [] \<and> hd s = CHR ''-'');
          signed = (neg \<or> s \<noteq> [] \<and> hd s = CHR ''+'');
          ds = (if signed then tl s else s);
          n = digits_value 0 ds;
          v = (if neg then - n else n)
      in if ds = [] \<or> \<not> list_all is_digit ds then None
         else if int64_ok v then Some v else None)"

subsection \<open>Round trip\<close>

lemma digit_char: "0 \<le> d \<Longrightarrow> d < 10 \<Longrightarrow> is_digit (char_of (48 + d)) \<and> digit_val (char_of (48 + d)) = d"
proof -
  assume "0 \<le> d" "d < 10"
  then have "d \<in> set [0, 1, 2, 3, 4, 5, 6, 7, 8, 9]" by simp presburger
  moreover have "list_all (\<lambda>d. is_digit (char_of (48 + d)) \<and> digit_val (char_of (48 + d)) = d)
      [0, 1, 2, 3, 4, 5, 6, 7, 8, 9]" by code_simp
  ultimately show ?thesis unfolding list_all_iff by blast
qed

lemma digits_value_append: "digits_value acc (xs @ ys) = digits_value (digits_value acc xs) ys"
  by (induction xs arbitrary: acc) auto

lemma decimal_digits: "0 \<le> n \<Longrightarrow> decimal n \<noteq> [] \<and> list_all is_digit (decimal n)"
proof (induction n rule: decimal.induct)
  case (1 n)
  show ?case
  proof (cases "n < 10")
    case True
    with 1(2) digit_char [of n] show ?thesis by (subst (1 2) decimal.simps) simp
  next
    case False
    with 1 digit_char [of "n mod 10"] show ?thesis by (subst (1 2) decimal.simps) simp
  qed
qed

lemma decimal_value: "0 \<le> n \<Longrightarrow> digits_value 0 (decimal n) = n"
proof (induction n rule: decimal.induct)
  case (1 n)
  show ?case
  proof (cases "n < 10")
    case True
    with 1(2) digit_char [of n] show ?thesis by (subst decimal.simps) simp
  next
    case False
    with 1 digit_char [of "n mod 10"] show ?thesis
      by (subst decimal.simps) (simp add: digits_value_append)
  qed
qed

lemma parse_itoa: "int64_ok n \<Longrightarrow> parse_int (itoa n) = Some n"
proof -
  assume ok: "int64_ok n"
  show ?thesis
  proof (cases "n < 0")
    case True
    with ok decimal_digits [of "- n"] decimal_value [of "- n"] show ?thesis
      by (simp add: parse_int_def itoa_def Let_def)
  next
    case False
    then obtain c cs where c: "decimal n = c # cs" "is_digit c" "list_all is_digit cs"
      using decimal_digits [of n] by (cases "decimal n") auto
    then have "c \<noteq> CHR ''-''" "c \<noteq> CHR ''+''" by (auto simp: is_digit_def byte_val_def)
    with ok c False decimal_value [of n] show ?thesis
      by (simp add: parse_int_def itoa_def Let_def)
  qed
qed

end
