(* ===== verification/Go_Json.thy ===== *)
theory Go_Json
  imports Go_Text Go_Strconv Go_Float64 "HOL-Library.List_Lexorder"
begin

text \<open>
  What the program uses of \<open>encoding/json\<close>: the grammar of values with the depth limit of the
  scanner, strings with their escapes and surrogate pairs, the encoder with its HTML escapes,
  the text of a number, and how a value is stored into the fields of a struct.  The main
  lemmas are that a string and a value survive encoding and decoding, up to the
  replacement of bytes that are not UTF-8.
\<close>

subsection \<open>Values\<close>

datatype json =
    JNull
  | JBool bool
  | JNumber bytes
  | JString bytes
  | JArray "json list"
  | JObject "(bytes \<times> json) list"

text \<open>
  The outcome of reading something from the front of a text: the scanner meets a byte that
  cannot stand there, the text ends first, or the value and the bytes after it.
\<close>

datatype 'a parsed = Malformed | Truncated | Parsed 'a bytes

definition is_json_space :: "char \<Rightarrow> bool" where
  "is_json_space c \<longleftrightarrow> c = CHR 0x20 \<or> c = CHR 0x09 \<or> c = CR \<or> c = NL"

definition skip_space :: "bytes \<Rightarrow> bytes" where
  "skip_space = dropWhile is_json_space"

subsection \<open>Strings\<close>

definition hex_digit :: "int \<Rightarrow> char" where
  "hex_digit n = (if n < 10 then char_of (48 + n) else char_of (87 + n))"

definition hex_val :: "char \<Rightarrow> int option" where
  "hex_val c =
     (let b = byte_val c
      in if 48 \<le> b \<and> b \<le> 57 then Some (b - 48)
         else if 97 \<le> b \<and> b \<le> 102 then Some (b - 87)
         else if 65 \<le> b \<and> b \<le> 70 then Some (b - 55)
         else None)"

definition hex4 :: "int \<Rightarrow> bytes" where
  "hex4 r = [hex_digit (r div 4096), hex_digit (r div 256 mod 16), hex_digit (r div 16 mod 16), hex_digit (r mod 16)]"

text \<open>Four hexadecimal digits and the bytes after them.\<close>

fun hex_run :: "nat \<Rightarrow> int \<Rightarrow> bytes \<Rightarrow> int parsed" where
  "hex_run 0 acc s = Parsed acc s"
| "hex_run (Suc n) acc [] = Truncated"
| "hex_run (Suc n) acc (c # s) =
     (case hex_val c of None \<Rightarrow> Malformed | Some d \<Rightarrow> hex_run n (acc * 16 + d) s)"

definition get_hex4 :: "bytes \<Rightarrow> int parsed" where
  "get_hex4 s = hex_run 4 0 s"

text \<open>The rune of the digits after \<open>\u\<close>: a surrogate takes the escape that follows it, when
  the two form a pair, and is U+FFFD otherwise.\<close>

definition is_surrogate :: "int \<Rightarrow> bool" where
  "is_surrogate r \<longleftrightarrow> 0xD800 \<le> r \<and> r \<le> 0xDFFF"

definition second_half :: "int \<Rightarrow> bytes \<Rightarrow> (int \<times> bytes) option" where
  "second_half r s =
     (case s of
        a # b # t \<Rightarrow>
          if a = CHR 0x5C \<and> b = CHR ''u'' then
            (case get_hex4 t of
               Parsed r2 u \<Rightarrow>
                 if r < 0xDC00 \<and> 0xDC00 \<le> r2 \<and> r2 \<le> 0xDFFF
                 then Some ((r - 0xD800) * 1024 + (r2 - 0xDC00) + 0x10000, u) else None
             | _ \<Rightarrow> None)
          else None
      | _ \<Rightarrow> None)"

definition escaped_rune :: "bytes \<Rightarrow> int parsed" where
  "escaped_rune s =
     (case get_hex4 s of
        Parsed r t \<Rightarrow>
          if is_surrogate r
          then (case second_half r t of Some (x, u) \<Rightarrow> Parsed x u | None \<Rightarrow> Parsed RuneError t)
          else Parsed r t
      | stop \<Rightarrow> stop)"

definition simple_escapes :: "(char \<times> char) list" where
  "simple_escapes =
     [(DQUOTE, DQUOTE), (CHR 0x5C, CHR 0x5C), (CHR ''/'', CHR ''/''), (CHR ''b'', CHR 0x08),
      (CHR ''f'', CHR 0x0C), (CHR ''n'', NL), (CHR ''r'', CR), (CHR ''t'', CHR 0x09)]"

lemma hex_run_length: "hex_run n acc s = Parsed r t \<Longrightarrow> length s = n + length t"
  by (induction n acc s rule: hex_run.induct) (auto split: option.split_asm)

lemma get_hex4_shorter: "get_hex4 s = Parsed r t \<Longrightarrow> length t < length s"
  by (auto simp: get_hex4_def dest!: hex_run_length)

lemma second_half_shorter: "second_half r s = Some (x, t) \<Longrightarrow> length t < length s"
  by (auto simp: second_half_def split: list.split_asm if_split_asm parsed.split_asm dest!: get_hex4_shorter)

lemma escaped_rune_shorter: "escaped_rune s = Parsed r t \<Longrightarrow> length t < length s"
  by (auto simp: escaped_rune_def split: if_split_asm option.split_asm parsed.split_asm
      dest!: get_hex4_shorter second_half_shorter)

text \<open>A string after its opening quote: its value in UTF-8, and the bytes after the closing quote.\<close>

function json_string :: "bytes \<Rightarrow> bytes parsed" where
  "json_string [] = Truncated"
| "json_string (c # cs) =
     (if c = DQUOTE then Parsed [] cs
      else if c = CHR 0x5C then
        (case cs of
           [] \<Rightarrow> Truncated
         | e # es \<Rightarrow>
             if e = CHR ''u'' then
               (case escaped_rune es of
                  Parsed r t \<Rightarrow> map_parsed (\<lambda>x. encode_rune r @ x) (json_string t)
                | Truncated \<Rightarrow> Truncated
                | Malformed \<Rightarrow> Malformed)
             else
               (case map_of simple_escapes e of
                  None \<Rightarrow> Malformed
                | Some x \<Rightarrow> map_parsed (\<lambda>y. x # y) (json_string es)))
      else if byte_val c < 0x20 then Malformed
      else
        (let (r, rest) = decode_rune c cs
         in map_parsed (\<lambda>x. encode_rune r @ x) (json_string rest)))"
  by pat_completeness auto
termination
  by (relation "measure length")
    (auto simp: le_imp_less_Suc less_SucI dest!: decode_rune_shorter [OF sym] escaped_rune_shorter)

declare json_string.simps(2) [simp del]

subsection \<open>The grammar\<close>

definition json_digits :: "bytes \<Rightarrow> bytes parsed" where
  "json_digits s =
     (let ds = takeWhile is_digit s; rest = dropWhile is_digit s
      in if s = [] then Truncated else if ds = [] then Malformed else Parsed ds rest)"

definition json_frac :: "bytes \<Rightarrow> bytes parsed" where
  "json_frac s =
     (case s of
        c # t \<Rightarrow>
          if c = CHR ''.'' then map_parsed (\<lambda>ds. c # ds) (json_digits t) else Parsed [] s
      | [] \<Rightarrow> Parsed [] s)"

definition json_exp :: "bytes \<Rightarrow> bytes parsed" where
  "json_exp s =
     (case s of
        c # t \<Rightarrow>
          if c = CHR ''e'' \<or> c = CHR ''E'' then
            (case t of
               d # u \<Rightarrow>
                 if d = CHR ''+'' \<or> d = CHR ''-''
                 then map_parsed (\<lambda>ds. c # d # ds) (json_digits u)
                 else map_parsed (\<lambda>ds. c # ds) (json_digits t)
             | [] \<Rightarrow> Truncated)
          else Parsed [] s
      | [] \<Rightarrow> Parsed [] s)"

fun bind_parsed :: "'a parsed \<Rightarrow> ('a \<Rightarrow> bytes \<Rightarrow> 'b parsed) \<Rightarrow> 'b parsed" where
  "bind_parsed (Parsed x s) f = f x s"
| "bind_parsed Truncated f = Truncated"
| "bind_parsed Malformed f = Malformed"

definition json_number :: "bytes \<Rightarrow> bytes parsed" where
  "json_number s =
     (let (sign, s1) = (if s \<noteq> [] \<and> hd s = CHR ''-'' then ([hd s], tl s) else ([], s))
      in bind_parsed (if s1 \<noteq> [] \<and> hd s1 = CHR ''0'' then Parsed [hd s1] (tl s1) else json_digits s1)
           (\<lambda>i s2. bind_parsed (json_frac s2)
             (\<lambda>f s3. map_parsed (\<lambda>e. sign @ i @ f @ e) (json_exp s3))))"

definition json_word :: "bytes \<Rightarrow> json \<Rightarrow> bytes \<Rightarrow> json parsed" where
  "json_word w v s =
     (if has_prefix s w then Parsed v (drop (length w) s)
      else if has_prefix w s then Truncated else Malformed)"

definition json_scalar :: "bytes \<Rightarrow> json parsed" where
  "json_scalar s =
     (if has_prefix s [DQUOTE] then map_parsed JString (json_string (tl s))
      else if has_prefix s ''t'' then json_word ''true'' (JBool True) s
      else if has_prefix s ''f'' then json_word ''false'' (JBool False) s
      else if has_prefix s ''n'' then json_word ''null'' JNull s
      else map_parsed JNumber (json_number s))"

text \<open>
  The elements of an array after its bracket, the members of an object after its brace, for
  a parser \<open>p\<close> of the values in them.  The guard on the length always holds for the parsers
  below; it makes the recursion end for any \<open>p\<close>.
\<close>

function json_elems :: "(bytes \<Rightarrow> json parsed) \<Rightarrow> bytes \<Rightarrow> json list parsed" where
  "json_elems p s =
     bind_parsed (p s)
       (\<lambda>v r. case skip_space r of
          [] \<Rightarrow> Truncated
        | c # t \<Rightarrow>
            if c = CHR '']'' then Parsed [v] t
            else if c = CHR '','' \<and> length t < length s
            then map_parsed (\<lambda>vs. v # vs) (json_elems p t)
            else Malformed)"
  by pat_completeness auto
termination
  by (relation "measure (\<lambda>(p, s). length s)") auto

definition json_member :: "(bytes \<Rightarrow> json parsed) \<Rightarrow> bytes \<Rightarrow> (bytes \<times> json) parsed" where
  "json_member p s =
     (case skip_space s of
        [] \<Rightarrow> Truncated
      | q # k \<Rightarrow>
          if q \<noteq> DQUOTE then Malformed
          else
            bind_parsed (json_string k)
              (\<lambda>key r. case skip_space r of
                 [] \<Rightarrow> Truncated
               | c # t \<Rightarrow> if c = CHR '':'' then map_parsed (\<lambda>v. (key, v)) (p t) else Malformed))"

function json_members ::
  "(bytes \<Rightarrow> json parsed) \<Rightarrow> bytes \<Rightarrow> (bytes \<times> json) list parsed" where
  "json_members p s =
     bind_parsed (json_member p s)
       (\<lambda>m r. case skip_space r of
          [] \<Rightarrow> Truncated
        | c # t \<Rightarrow>
            if c = CHR ''}'' then Parsed [m] t
            else if c = CHR '','' \<and> length t < length s
            then map_parsed (\<lambda>ms. m # ms) (json_members p t)
            else Malformed)"
  by pat_completeness auto
termination
  by (relation "measure (\<lambda>(p, s). length s)") auto

declare json_elems.simps [simp del] json_members.simps [simp del]

text \<open>A value with at most \<open>d\<close> nested arrays and objects, and the bytes after it.\<close>

fun json_value :: "nat \<Rightarrow> bytes \<Rightarrow> json parsed" where
  "json_value 0 s = json_scalar (skip_space s)"
| "json_value (Suc d) s =
     (case skip_space s of
        [] \<Rightarrow> Truncated
      | c # t \<Rightarrow>
          if c = CHR ''['' then
            (if has_prefix (skip_space t) '']'' then Parsed (JArray []) (tl (skip_space t))
             else map_parsed JArray (json_elems (json_value d) t))
          else if c = CHR ''{'' then
            (if has_prefix (skip_space t) ''}'' then Parsed (JObject []) (tl (skip_space t))
             else map_parsed JObject (json_members (json_value d) t))
          else json_scalar (c # t))"

definition max_depth :: nat where "max_depth = 10000"

text \<open>
  \<open>json.Decoder.Decode\<close> on a body that ends, or fails with an error after the bytes \<open>s\<close>: it
  reads the first value and leaves the rest.  It knows that an object or array is complete
  at its last byte, and that a scalar is only at the byte after it or the end of the body.
\<close>

datatype 'e json_error = SyntaxError | UnexpectedEOF | EOF_Error | ReadError 'e | TypeError

fun is_scalar :: "json \<Rightarrow> bool" where
  "is_scalar (JArray _) = False"
| "is_scalar (JObject _) = False"
| "is_scalar _ = True"

definition json_decode :: "bytes \<Rightarrow> 'e option \<Rightarrow> 'e json_error + json" where
  "json_decode s rd_err =
     (case json_value max_depth s of
        Malformed \<Rightarrow> Inl SyntaxError
      | Truncated \<Rightarrow>
          Inl (case rd_err of
                 Some e \<Rightarrow> ReadError e
               | None \<Rightarrow> if skip_space s = [] then EOF_Error else UnexpectedEOF)
      | Parsed v rest \<Rightarrow>
          (case rd_err of
             Some e \<Rightarrow> if is_scalar v \<and> rest = [] then Inl (ReadError e) else Inr v
           | None \<Rightarrow> Inr v))"

text \<open>\<open>json.Unmarshal\<close> takes the whole input, with white space around the value.\<close>

definition json_unmarshal :: "bytes \<Rightarrow> json option" where
  "json_unmarshal s =
     (case json_value max_depth s of
        Parsed v rest \<Rightarrow> if skip_space rest = [] then Some v else None
      | _ \<Rightarrow> None)"

subsection \<open>Storing a value into a struct\<close>

text \<open>
  A key matches the name of a field up to the simple case folding of Unicode; only two
  runes from 0x80 on fold to ASCII letters.
\<close>

definition fold_rune :: "int \<Rightarrow> int" where
  "fold_rune r =
     (if 97 \<le> r \<and> r \<le> 122 then r - 32 else if r = 0x212A then 75 else if r = 0x17F then 83 else r)"

definition field_matches :: "bytes \<Rightarrow> bytes \<Rightarrow> bool" where
  "field_matches key name \<longleftrightarrow> map fold_rune (runes key) = map fold_rune (runes name)"

text \<open>
  Each of these is given the value and what the destination holds, and returns what it holds
  afterwards and whether the types agreed: \<open>null\<close> changes nothing, and a value of another
  type is skipped and makes the whole call fail in the end.
\<close>

definition store_string :: "json \<Rightarrow> bytes \<Rightarrow> bytes \<times> bool" where
  "store_string v x = (case v of JString s \<Rightarrow> (s, True) | JNull \<Rightarrow> (x, True) | _ \<Rightarrow> (x, False))"

definition store_int :: "json \<Rightarrow> int \<Rightarrow> int \<times> bool" where
  "store_int v x =
     (case v of
        JNumber n \<Rightarrow> (case parse_int n of Some i \<Rightarrow> (i, True) | None \<Rightarrow> (x, False))
      | JNull \<Rightarrow> (x, True)
      | _ \<Rightarrow> (x, False))"

fun store_members :: "(bytes \<Rightarrow> json \<Rightarrow> 'a \<Rightarrow> 'a \<times> bool) \<Rightarrow> (bytes \<times> json) list \<Rightarrow> 'a \<Rightarrow> 'a \<times> bool" where
  "store_members f [] x = (x, True)"
| "store_members f ((k, v) # ms) x =
     (let (x, ok) = f k v x; (x, oks) = store_members f ms x in (x, ok \<and> oks))"

definition store_struct :: "(bytes \<Rightarrow> json \<Rightarrow> 'a \<Rightarrow> 'a \<times> bool) \<Rightarrow> json \<Rightarrow> 'a \<Rightarrow> 'a \<times> bool" where
  "store_struct f v x =
     (case v of JObject ms \<Rightarrow> store_members f ms x | JNull \<Rightarrow> (x, True) | _ \<Rightarrow> (x, False))"

text \<open>
  A slice: the elements are stored over the ones its array still holds, of which the first
  \<open>n\<close> are its elements.
\<close>

fun store_elems :: "(json \<Rightarrow> 'a \<Rightarrow> 'a \<times> bool) \<Rightarrow> 'a \<Rightarrow> json list \<Rightarrow> 'a list \<Rightarrow> 'a list \<times> bool" where
  "store_elems f zero [] xs = (xs, True)"
| "store_elems f zero (v # vs) xs =
     (let (x, ok) = f v (case xs of [] \<Rightarrow> zero | x # _ \<Rightarrow> x);
          (xs, oks) = store_elems f zero vs (tl xs)
      in (x # xs, ok \<and> oks))"

definition store_slice :: "(json \<Rightarrow> 'a \<Rightarrow> 'a \<times> bool) \<Rightarrow> 'a \<Rightarrow> json \<Rightarrow> 'a list \<times> nat \<Rightarrow> ('a list \<times> nat) \<times> bool" where
  "store_slice f zero v x =
     (case v of
        JArray [] \<Rightarrow> (([], 0), True)
      | JArray vs \<Rightarrow> (let (xs, ok) = store_elems f zero vs (fst x) in ((xs, length vs), ok))
      | JNull \<Rightarrow> (([], 0), True)
      | _ \<Rightarrow> (x, False))"

text \<open>The result of \<open>Decode\<close> and \<open>Unmarshal\<close> into a struct \<open>zero\<close>.\<close>

definition decode_into :: "(bytes \<Rightarrow> json \<Rightarrow> 'a \<Rightarrow> 'a \<times> bool) \<Rightarrow> 'a \<Rightarrow> bytes \<Rightarrow> 'e option \<Rightarrow> 'e json_error + 'a" where
  "decode_into f zero s rd_err =
     (case json_decode s rd_err of
        Inl e \<Rightarrow> Inl e
      | Inr v \<Rightarrow> (let (x, ok) = store_struct f v zero in if ok then Inr x else Inl TypeError))"

definition unmarshal_into :: "(bytes \<Rightarrow> json \<Rightarrow> 'a \<Rightarrow> 'a \<times> bool) \<Rightarrow> 'a \<Rightarrow> bytes \<Rightarrow> 'a option" where
  "unmarshal_into f zero s =
     (case json_unmarshal s of
        None \<Rightarrow> None
      | Some v \<Rightarrow> (let (x, ok) = store_struct f v zero in if ok then Some x else None))"

subsection \<open>The encoder\<close>

definition escape_rune :: "int \<Rightarrow> bytes" where
  "escape_rune r =
     (if r = 0x22 \<or> r = 0x5C then [CHR 0x5C, char_of r]
      else if r = 8 then [CHR 0x5C, CHR ''b'']
      else if r = 12 then [CHR 0x5C, CHR ''f'']
      else if r = 10 then [CHR 0x5C, CHR ''n'']
      else if r = 13 then [CHR 0x5C, CHR ''r'']
      else if r = 9 then [CHR 0x5C, CHR ''t'']
      else if r < 0x20 \<or> r = 0x3C \<or> r = 0x3E \<or> r = 0x26 \<or> r = 0x2028 \<or> r = 0x2029
        then [CHR 0x5C, CHR ''u''] @ hex4 r
      else encode_rune r)"

text \<open>A byte that is no UTF-8 is written as the escape of U+FFFD, which the rune itself is not.\<close>

function escape_string :: "bytes \<Rightarrow> bytes" where
  "escape_string [] = []"
| "escape_string (c # cs) =
     (let (r, rest) = decode_rune c cs
      in (if r = RuneError \<and> rest = cs then [CHR 0x5C, CHR ''u''] @ hex4 RuneError else escape_rune r) @
         escape_string rest)"
  by pat_completeness auto
termination
  by (relation "measure length") (auto simp: le_imp_less_Suc dest!: decode_rune_shorter [OF sym])

definition encode_string :: "bytes \<Rightarrow> bytes" where
  "encode_string s = [DQUOTE] @ escape_string s @ [DQUOTE]"

fun commas :: "bytes list \<Rightarrow> bytes" where
  "commas [] = []"
| "commas [x] = x"
| "commas (x # xs) = x @ '','' @ commas xs"

fun json_encode :: "json \<Rightarrow> bytes" where
  "json_encode JNull = ''null''"
| "json_encode (JBool b) = (if b then ''true'' else ''false'')"
| "json_encode (JNumber n) = n"
| "json_encode (JString s) = encode_string s"
| "json_encode (JArray vs) = ''['' @ commas (map json_encode vs) @ '']''"
| "json_encode (JObject ms) =
     ''{'' @ commas (map (\<lambda>(k, v). encode_string k @ '':'' @ json_encode v) ms) @ ''}''"

text \<open>A Go map is written with its keys in byte order.\<close>

definition json_map :: "(bytes \<times> json) list \<Rightarrow> json" where
  "json_map ms = JObject (sort_key fst ms)"

text \<open>
  The text of a double in \<open>[0, 1]\<close> that is zero or at least \<open>1e-6\<close>: the shortest decimal that
  rounds to it.
\<close>

fun shortest_from :: "nat \<Rightarrow> nat \<Rightarrow> rat \<Rightarrow> nat \<times> int" where
  "shortest_from 0 n x = (n, round (x * 10 ^ n))"
| "shortest_from (Suc fuel) n x =
     (let m = round (x * 10 ^ n)
      in if rnd (of_int m / 10 ^ n) = x then (n, m) else shortest_from fuel (Suc n) x)"

definition format_unit_float :: "rat \<Rightarrow> bytes" where
  "format_unit_float x =
     (let (n, m) = shortest_from 25 0 x
      in if n = 0 then decimal m
         else (let ds = decimal (m mod 10 ^ n)
               in decimal (m div 10 ^ n) @ ''.'' @ replicate (n - length ds) (CHR ''0'') @ ds))"

subsection \<open>Runes and their encoding\<close>

definition scalar_rune :: "int \<Rightarrow> bool" where
  "scalar_rune r \<longleftrightarrow> 0 \<le> r \<and> r \<le> 0x10FFFF \<and> \<not> is_surrogate r"

lemma decode_rune_scalar:
  assumes "decode_rune c cs = (r, rest)"
  shows "scalar_rune r"
proof -
  have c: "byte_val c \<le> 236 \<or> byte_val c = 237 \<or> 238 \<le> byte_val c \<and> byte_val c \<le> 239 \<or>
      byte_val c = 240 \<or> 241 \<le> byte_val c" by linarith
  have "scalar_rune RuneError" by (simp add: scalar_rune_def is_surrogate_def)
  with assms c byte_val_bounds [of c] show ?thesis
    unfolding decode_rune_def Let_def
    by (elim disjE) (auto simp: scalar_rune_def is_surrogate_def is_cont_def split: if_split_asm list.split_asm)
qed

lemma byte_val_char_of [simp]: "0 \<le> n \<Longrightarrow> n < 256 \<Longrightarrow> byte_val (char_of n) = n"
  by (simp add: byte_val_def)

lemma decode_encode2:
  assumes "0x80 \<le> r" "r < 0x800"
  shows "decode_rune (char_of (0xC0 + r div 64)) (char_of (0x80 + r mod 64) # t) = (r, t)"
proof -
  have b: "byte_val (char_of (0xC0 + r div 64)) = 0xC0 + r div 64" "byte_val (char_of (0x80 + r mod 64)) = 0x80 + r mod 64"
    using assms by (intro byte_val_char_of; presburger)+
  have "2 \<le> r div 64" "r div 64 \<le> 31" "0 \<le> r mod 64" "r mod 64 \<le> 63" using assms by presburger+
  moreover have "r div 64 * 64 + r mod 64 = r" by presburger
  ultimately show ?thesis by (simp add: decode_rune_def b is_cont_def)
qed

lemma split64:
  fixes r :: int
  obtains h m l where "r = h * 4096 + m * 64 + l" "0 \<le> m" "m \<le> 63" "0 \<le> l" "l \<le> 63"
    "r div 4096 = h" "r div 64 mod 64 = m" "r mod 64 = l"
proof
  have "r div 4096 = r div 64 div 64" using zdiv_zmult2_eq [of 64 r 64] by simp
  then show "r = r div 4096 * 4096 + r div 64 mod 64 * 64 + r mod 64"
    using div_mult_mod_eq [of r 64] div_mult_mod_eq [of "r div 64" 64] by linarith
  have "r div 64 mod 64 < 64" "r mod 64 < 64" by simp_all
  then show "r div 64 mod 64 \<le> 63" "r mod 64 \<le> 63" by linarith+
qed simp_all

lemma decode_encode3:
  assumes "0x800 \<le> r" "r < 0x10000" "\<not> is_surrogate r"
  shows "decode_rune (char_of (0xE0 + r div 4096)) (char_of (0x80 + r div 64 mod 64) # char_of (0x80 + r mod 64) # t) = (r, t)"
proof -
  obtain h m l where r: "r = h * 4096 + m * 64 + l" and rng: "0 \<le> m" "m \<le> 63" "0 \<le> l" "l \<le> 63"
    and eq: "r div 4096 = h" "r div 64 mod 64 = m" "r mod 64 = l"
    using split64 [of r] .
  have h: "0 \<le> h" "h \<le> 15" using assms r rng by linarith+
  have low: "h = 0 \<Longrightarrow> 32 \<le> m" using assms(1) r rng by linarith
  have sur: "h = 13 \<Longrightarrow> m \<le> 31" using assms(3) r rng unfolding is_surrogate_def by linarith
  have b: "byte_val (char_of (0xE0 + h)) = 0xE0 + h" "byte_val (char_of (0x80 + m)) = 0x80 + m"
    "byte_val (char_of (0x80 + l)) = 0x80 + l"
    by (intro byte_val_char_of; use h rng in linarith)+
  show ?thesis unfolding eq using h rng low sur r by (simp add: decode_rune_def b is_cont_def)
qed

lemma decode_encode4:
  assumes "0x10000 \<le> r" "r \<le> 0x10FFFF"
  shows "decode_rune (char_of (0xF0 + r div 262144))
    (char_of (0x80 + r div 4096 mod 64) # char_of (0x80 + r div 64 mod 64) # char_of (0x80 + r mod 64) # t) = (r, t)"
proof -
  obtain q m l where r: "r = q * 4096 + m * 64 + l" and rng: "0 \<le> m" "m \<le> 63" "0 \<le> l" "l \<le> 63"
    and eq: "r div 4096 = q" "r div 64 mod 64 = m" "r mod 64 = l"
    using split64 [of r] .
  have "r div 262144 = q div 64" using zdiv_zmult2_eq [of 64 r 4096] eq(1) by simp
  moreover obtain h x where q: "q = h * 64 + x" "0 \<le> x" "x \<le> 63" "q div 64 = h" "q mod 64 = x"
  proof
    show "q = q div 64 * 64 + q mod 64" by simp
    have "q mod 64 < 64" by simp
    then show "q mod 64 \<le> 63" by linarith
  qed simp_all
  ultimately have eqs: "r div 262144 = h" "r div 4096 mod 64 = x" using eq by simp_all
  have h: "0 \<le> h" "h \<le> 4" using assms r rng q by linarith+
  have low: "h = 0 \<Longrightarrow> 16 \<le> x" using assms(1) r rng q by linarith
  have high: "h = 4 \<Longrightarrow> x \<le> 15" using assms(2) r rng q by linarith
  have b: "byte_val (char_of (0xF0 + h)) = 0xF0 + h" "byte_val (char_of (0x80 + x)) = 0x80 + x"
    "byte_val (char_of (0x80 + m)) = 0x80 + m" "byte_val (char_of (0x80 + l)) = 0x80 + l"
    by (intro byte_val_char_of; use h rng q in linarith)+
  show ?thesis unfolding eqs eq using h rng low high r q by (simp add: decode_rune_def b is_cont_def)
qed

lemma decode_encode:
  assumes "scalar_rune r"
  obtains c cs where "encode_rune r = c # cs" "\<And>t. decode_rune c (cs @ t) = (r, t)"
    "r < 0x80 \<longrightarrow> c = char_of r \<and> cs = []" "0x80 \<le> r \<longrightarrow> 0x80 \<le> byte_val c"
proof -
  consider "0 \<le> r" "r < 0x80" | "0x80 \<le> r" "r < 0x800" | "0x800 \<le> r" "r < 0x10000" "\<not> is_surrogate r" | "0x10000 \<le> r" "r \<le> 0x10FFFF"
    using assms unfolding scalar_rune_def by linarith
  then show ?thesis
  proof cases
    case 1
    then show ?thesis by (intro that [of "char_of r" "[]"]) (simp_all add: encode_rune_def)
  next
    case 2
    then have "0xC0 + r div 64 < 256" "0 \<le> r div 64" by presburger+
    with 2 decode_encode2 [OF 2] show ?thesis
      by (intro that [of "char_of (0xC0 + r div 64)" "[char_of (0x80 + r mod 64)]"])
        (simp_all add: encode_rune_def)
  next
    case 3
    then have "0xE0 + r div 4096 < 256" "0 \<le> r div 4096" by (simp_all add: div_less_iff_less_mult)
    with 3 decode_encode3 [OF 3] show ?thesis
      by (intro that [of "char_of (0xE0 + r div 4096)" "[char_of (0x80 + r div 64 mod 64), char_of (0x80 + r mod 64)]"])
        (auto simp: encode_rune_def is_surrogate_def)
  next
    case 4
    then have "0xF0 + r div 262144 < 256" "0 \<le> r div 262144" by (simp_all add: div_less_iff_less_mult)
    with 4 decode_encode4 [OF 4] show ?thesis
      by (intro that [of "char_of (0xF0 + r div 262144)" "[char_of (0x80 + r div 4096 mod 64), char_of (0x80 + r div 64 mod 64), char_of (0x80 + r mod 64)]"])
        (auto simp: encode_rune_def)
  qed
qed

subsection \<open>Strings survive encoding and decoding\<close>

lemma hex_digit_val: "0 \<le> n \<Longrightarrow> n < 16 \<Longrightarrow> hex_val (hex_digit n) = Some n"
proof -
  assume "0 \<le> n" "n < 16"
  then have "n \<in> set [0, 1, 2, 3, 4, 5, 6, 7, 8, 9, 10, 11, 12, 13, 14, 15]" by simp presburger
  moreover have "list_all (\<lambda>n. hex_val (hex_digit n) = Some n) [0, 1, 2, 3, 4, 5, 6, 7, 8, 9, 10, 11, 12, 13, 14, 15]"
    by code_simp
  ultimately show ?thesis unfolding list_all_iff by blast
qed

lemma get_hex4_digits:
  assumes "0 \<le> w" "w < 16" "0 \<le> x" "x < 16" "0 \<le> y" "y < 16" "0 \<le> z" "z < 16"
  shows "get_hex4 ([hex_digit w, hex_digit x, hex_digit y, hex_digit z] @ t) = Parsed (((w * 16 + x) * 16 + y) * 16 + z) t"
  using assms by (simp add: get_hex4_def eval_nat_numeral hex_digit_val)

lemma get_hex4_hex4:
  assumes "0 \<le> r" "r < 65536"
  shows "get_hex4 (hex4 r @ t) = Parsed r t"
proof -
  have q: "r div 4096 = r div 256 div 16" "r div 256 = r div 16 div 16"
    using zdiv_zmult2_eq [of 16 r 256] zdiv_zmult2_eq [of 16 r 16] by simp_all
  have "((r div 4096 * 16 + r div 256 mod 16) * 16 + r div 16 mod 16) * 16 + r mod 16 = r"
    unfolding q by (simp only: div_mult_mod_eq)
  moreover have "get_hex4 (hex4 r @ t) = Parsed (((r div 4096 * 16 + r div 256 mod 16) * 16 + r div 16 mod 16) * 16 + r mod 16) t"
    unfolding hex4_def
    by (rule get_hex4_digits) (use assms in \<open>simp_all add: div_less_iff_less_mult\<close>)
  ultimately show ?thesis by metis
qed

abbreviation prepend :: "bytes \<Rightarrow> bytes parsed \<Rightarrow> bytes parsed" where
  "prepend p \<equiv> map_parsed (\<lambda>x. p @ x)"

lemma json_string_simple:
  assumes "map_of simple_escapes e = Some y" "e \<noteq> CHR ''u''"
  shows "json_string (CHR 0x5C # e # t) = prepend [y] (json_string t)"
  using assms by (simp add: json_string.simps(2))

lemma json_string_hex:
  assumes "0 \<le> r" "r < 65536" "\<not> is_surrogate r"
  shows "json_string (CHR 0x5C # CHR ''u'' # hex4 r @ t) = prepend (encode_rune r) (json_string t)"
  using assms by (simp add: json_string.simps(2) escaped_rune_def get_hex4_hex4)

lemma json_string_plain:
  assumes "scalar_rune r" "0x20 \<le> r" "r \<noteq> 0x22" "r \<noteq> 0x5C"
  shows "json_string (encode_rune r @ t) = prepend (encode_rune r) (json_string t)"
proof -
  obtain c cs where c: "encode_rune r = c # cs" "decode_rune c (cs @ t) = (r, t)"
    "r < 0x80 \<longrightarrow> c = char_of r" "0x80 \<le> r \<longrightarrow> 0x80 \<le> byte_val c"
    using decode_encode [OF assms(1)] by metis
  have "byte_val c = r \<or> 0x80 \<le> byte_val c" using c(3,4) assms(2) by (cases "r < 0x80") auto
  then have "c \<noteq> DQUOTE" "c \<noteq> CHR 0x5C" "0x20 \<le> byte_val c" using assms by (auto simp: byte_val_def)
  with c(2) have "json_string ((c # cs) @ t) = prepend (encode_rune r) (json_string t)"
    by (simp add: json_string.simps(2))
  with c(1) show ?thesis by metis
qed

lemma char_of_escaped:
  "char_of (34 :: int) = DQUOTE" "char_of (92 :: int) = CHR 0x5C" "char_of (8 :: int) = CHR 0x08"
  "char_of (12 :: int) = CHR 0x0C" "char_of (10 :: int) = NL" "char_of (13 :: int) = CR"
  "char_of (9 :: int) = CHR 0x09"
  by code_simp+

lemma json_string_escape:
  assumes r: "scalar_rune r"
  shows "json_string (escape_rune r @ t) = prepend (encode_rune r) (json_string t)"
proof -
  consider (simple) e where "escape_rune r = [CHR 0x5C, e]" "map_of simple_escapes e = Some (char_of r)"
      "e \<noteq> CHR ''u''" "encode_rune r = [char_of r]"
    | (hex) "escape_rune r = [CHR 0x5C, CHR ''u''] @ hex4 r" "r < 65536"
    | (plain) "escape_rune r = encode_rune r" "0x20 \<le> r" "r \<noteq> 0x22" "r \<noteq> 0x5C"
  proof (cases "r \<in> {0x22, 0x5C, 8, 12, 10, 13, 9}")
    case True
    then have "\<exists>e. escape_rune r = [CHR 0x5C, e] \<and> map_of simple_escapes e = Some (char_of r) \<and>
        e \<noteq> CHR ''u'' \<and> encode_rune r = [char_of r]"
      unfolding insert_iff empty_iff simple_escapes_def
      by (elim disjE FalseE) (simp_all add: escape_rune_def encode_rune_def char_of_escaped)
    then show ?thesis using simple by blast
  next
    case False
    show ?thesis
    proof (cases "r < 0x20 \<or> r = 0x3C \<or> r = 0x3E \<or> r = 0x26 \<or> r = 0x2028 \<or> r = 0x2029")
      case True
      then have "r < 65536" by linarith
      with True False show ?thesis by (intro hex) (simp_all only: escape_rune_def insert_iff empty_iff de_Morgan_disj simp_thms if_True if_False)
    next
      case False
      with \<open>r \<notin> _\<close> show ?thesis by (intro plain) (simp_all add: escape_rune_def)
    qed
  qed
  then show ?thesis
  proof cases
    case simple
    then show ?thesis using json_string_simple [of e "char_of r" t] by simp
  next
    case hex
    then show ?thesis using r json_string_hex [of r t] by (simp add: scalar_rune_def)
  next
    case plain
    then show ?thesis using r json_string_plain [of r t] by simp
  qed
qed

text \<open>\<open>strings.ToValidUTF8\<close> with U+FFFD: every byte that is not UTF-8 is replaced.\<close>

definition valid_text :: "bytes \<Rightarrow> bytes" where
  "valid_text s = concat (map encode_rune (runes s))"

lemma valid_text_ascii: "is_ascii s \<Longrightarrow> valid_text s = s"
  using byte_val_bounds
  by (induction s) (auto simp: valid_text_def is_ascii_def encode_rune_def byte_val_def)

lemma json_string_round:
  "json_string (escape_string s @ DQUOTE # t) = Parsed (valid_text s) t"
proof (induction s rule: escape_string.induct)
  case 1
  show ?case by (simp add: json_string.simps(2) valid_text_def)
next
  case (2 c cs)
  obtain r rest where d: "decode_rune c cs = (r, rest)" by (cases "decode_rune c cs") auto
  from 2 d have IH: "json_string (escape_string rest @ DQUOTE # t) = Parsed (valid_text rest) t" by simp
  show ?case
  proof (cases "r = RuneError \<and> rest = cs")
    case True
    then show ?thesis
      using IH d json_string_hex [of RuneError] by (simp add: valid_text_def is_surrogate_def)
  next
    case False
    then show ?thesis
      using IH d json_string_escape [OF decode_rune_scalar [OF d]] by (auto simp: valid_text_def)
  qed
qed

subsection \<open>Values survive encoding and decoding\<close>

text \<open>
  Values that the encoder writes: numbers are read whole before a delimiter.  \<open>valid_json\<close> is
  the value with its strings made valid UTF-8.
\<close>

definition delimited :: "bytes \<Rightarrow> bool" where
  "delimited t \<longleftrightarrow> t = [] \<or> hd t = CHR '','' \<or> hd t = CHR '']'' \<or> hd t = CHR ''}'' \<or> hd t = NL"

definition number_text :: "bytes \<Rightarrow> bool" where
  "number_text n \<longleftrightarrow> n \<noteq> [] \<and> (hd n = CHR ''-'' \<or> is_digit (hd n)) \<and>
     (\<forall>t. delimited t \<longrightarrow> json_number (n @ t) = Parsed n t)"

fun writable :: "json \<Rightarrow> bool" where
  "writable (JNumber n) = number_text n"
| "writable (JArray vs) = list_all writable vs"
| "writable (JObject ms) = list_all (\<lambda>(k, v). writable v) ms"
| "writable _ = True"

fun json_depth :: "json \<Rightarrow> nat" where
  "json_depth (JArray vs) = Suc (foldr max (map json_depth vs) 0)"
| "json_depth (JObject ms) = Suc (foldr max (map (\<lambda>(k, v). json_depth v) ms) 0)"
| "json_depth _ = 0"

fun valid_json :: "json \<Rightarrow> json" where
  "valid_json (JString s) = JString (valid_text s)"
| "valid_json (JArray vs) = JArray (map valid_json vs)"
| "valid_json (JObject ms) = JObject (map (\<lambda>(k, v). (valid_text k, valid_json v)) ms)"
| "valid_json v = v"

lemma json_encode_first:
  assumes "writable v"
  obtains c cs where "json_encode v = c # cs" "\<not> is_json_space c" "c \<noteq> CHR '']''" "c \<noteq> CHR ''}''"
proof (cases v)
  case (JNumber n)
  with assms obtain c cs where "n = c # cs" "c = CHR ''-'' \<or> is_digit c"
    by (cases n) (auto simp: number_text_def)
  with JNumber show ?thesis by (intro that [of c cs]) (auto simp: is_json_space_def is_digit_def byte_val_def)
next
  case (JBool b)
  then show ?thesis by (cases b) (auto intro: that simp: is_json_space_def)
qed (auto intro!: that simp: is_json_space_def encode_string_def)

lemma skip_space_encode:
  assumes "writable v"
  shows "skip_space (json_encode v @ t) = json_encode v @ t"
  using json_encode_first [OF assms] by (metis append_Cons dropWhile.simps(2) skip_space_def)

lemma json_value_nested:
  "json_value (Suc d) (CHR ''['' # t) =
     (if has_prefix (skip_space t) '']'' then Parsed (JArray []) (tl (skip_space t))
      else map_parsed JArray (json_elems (json_value d) t))"
  "json_value (Suc d) (CHR ''{'' # t) =
     (if has_prefix (skip_space t) ''}'' then Parsed (JObject []) (tl (skip_space t))
      else map_parsed JObject (json_members (json_value d) t))"
  by (simp_all add: skip_space_def is_json_space_def)

lemma json_value_scalar:
  assumes "s = c # cs" "\<not> is_json_space c" "c \<noteq> CHR ''[''" "c \<noteq> CHR ''{''"
  shows "json_value d s = json_scalar s"
  using assms by (cases d) (simp_all add: skip_space_def)

lemma json_encode_scalar:
  assumes "writable v" "json_depth v = 0" "delimited t"
  shows "json_value d (json_encode v @ t) = Parsed (valid_json v) t"
proof (cases v)
  case (JNumber n)
  with assms obtain c cs where n: "n = c # cs" "c = CHR ''-'' \<or> is_digit c" "json_number (n @ t) = Parsed n t"
    by (cases n) (auto simp: number_text_def)
  then have c: "c \<noteq> DQUOTE" "c \<noteq> CHR ''t''" "c \<noteq> CHR ''f''" "c \<noteq> CHR ''n''" "c \<noteq> CHR ''[''" "c \<noteq> CHR ''{''" "\<not> is_json_space c"
    by (auto simp: is_digit_def byte_val_def is_json_space_def)
  then have "json_value d (n @ t) = json_scalar (n @ t)" by (intro json_value_scalar [of _ c "cs @ t"]) (simp_all add: n)
  with JNumber n c show ?thesis by (simp add: json_scalar_def json_word_def has_prefix_def)
next
  case (JString s)
  have "json_value d (DQUOTE # escape_string s @ DQUOTE # t) = json_scalar (DQUOTE # escape_string s @ DQUOTE # t)"
    by (rule json_value_scalar [OF refl]) (simp_all add: is_json_space_def)
  with JString show ?thesis by (simp add: encode_string_def json_scalar_def json_word_def has_prefix_def json_string_round)
next
  case (JBool b)
  then show ?thesis using json_value_scalar [of "json_encode v @ t" "hd (json_encode v)" "tl (json_encode v) @ t" d]
    by (cases b) (simp_all add: json_scalar_def json_word_def has_prefix_def is_json_space_def)
next
  case JNull
  then show ?thesis using json_value_scalar [of "json_encode v @ t" "hd (json_encode v)" "tl (json_encode v) @ t" d]
    by (simp add: json_scalar_def json_word_def has_prefix_def is_json_space_def)
qed (use assms in auto)

lemma json_elems_encode:
  assumes "\<And>v t. v \<in> set vs \<Longrightarrow> delimited t \<Longrightarrow> p (json_encode v @ t) = Parsed (valid_json v) t" "vs \<noteq> []"
  shows "json_elems p (commas (map json_encode vs) @ CHR '']'' # t) = Parsed (map valid_json vs) t"
  using assms
proof (induction vs)
  case (Cons v vs)
  have v: "delimited u \<Longrightarrow> p (json_encode v @ u) = Parsed (valid_json v) u" for u using Cons.prems by simp
  show ?case
  proof (cases vs)
    case Nil
    then show ?thesis using v [of "CHR '']'' # t"]
      by (subst json_elems.simps) (simp add: delimited_def skip_space_def is_json_space_def)
  next
    case (Cons w ws)
    with Cons.IH Cons.prems
    have IH: "json_elems p (commas (map json_encode vs) @ CHR '']'' # t) = Parsed (map valid_json vs) t" by simp
    have c: "commas (map json_encode (v # vs)) = json_encode v @ CHR '','' # commas (map json_encode vs)" using Cons by simp
    show ?thesis using v [of "CHR '','' # commas (map json_encode vs) @ CHR '']'' # t"] IH unfolding c
      by (subst json_elems.simps) (simp add: delimited_def skip_space_def is_json_space_def)
  qed
qed simp

abbreviation encode_member :: "bytes \<times> json \<Rightarrow> bytes" where
  "encode_member \<equiv> (\<lambda>(k, v). encode_string k @ '':'' @ json_encode v)"

lemma json_member_encode:
  assumes "p (json_encode v @ t) = Parsed (valid_json v) t"
  shows "json_member p (encode_member (k, v) @ t) = Parsed (valid_text k, valid_json v) t"
  using assms
  by (simp add: json_member_def encode_string_def skip_space_def is_json_space_def json_string_round)

lemma json_members_encode:
  assumes "\<And>k v t. (k, v) \<in> set ms \<Longrightarrow> delimited t \<Longrightarrow> p (json_encode v @ t) = Parsed (valid_json v) t" "ms \<noteq> []"
  shows "json_members p (commas (map encode_member ms) @ CHR ''}'' # t) = Parsed (map (\<lambda>(k, v). (valid_text k, valid_json v)) ms) t"
  using assms
proof (induction ms)
  case (Cons m ms)
  obtain k v where m: "m = (k, v)" by (cases m)
  have v: "delimited u \<Longrightarrow> json_member p (encode_member m @ u) = Parsed (valid_text k, valid_json v) u" for u
    unfolding m by (rule json_member_encode, rule Cons.prems(1) [where k = k]) (simp_all add: m)
  show ?case
  proof (cases ms)
    case Nil
    then show ?thesis using v [of "CHR ''}'' # t"]
      by (subst json_members.simps) (simp add: delimited_def skip_space_def is_json_space_def m)
  next
    case (Cons w ws)
    have IH: "json_members p (commas (map encode_member ms) @ CHR ''}'' # t) = Parsed (map (\<lambda>(k, v). (valid_text k, valid_json v)) ms) t"
    proof (rule Cons.IH)
      fix k v t
      assume "(k, v) \<in> set ms" "delimited t"
      then show "p (json_encode v @ t) = Parsed (valid_json v) t" by (intro Cons.prems(1) [where k = k]) simp_all
    qed (simp add: Cons)
    have c: "commas (map encode_member (m # ms)) = encode_member m @ CHR '','' # commas (map encode_member ms)" using Cons by simp
    show ?thesis using v [of "CHR '','' # commas (map encode_member ms) @ CHR ''}'' # t"] IH unfolding c
      by (subst json_members.simps) (simp add: delimited_def skip_space_def is_json_space_def m)
  qed
qed simp

lemma foldr_max_le:
  fixes d :: nat
  shows "foldr max xs 0 \<le> d \<Longrightarrow> \<forall>x \<in> set xs. x \<le> d"
  by (induction xs) auto

lemma json_value_nonempty:
  assumes "s = c # cs" "\<not> is_json_space c"
  shows "c \<noteq> CHR '']'' \<Longrightarrow> json_value (Suc d) (CHR ''['' # s) = map_parsed JArray (json_elems (json_value d) s)"
    "c \<noteq> CHR ''}'' \<Longrightarrow> json_value (Suc d) (CHR ''{'' # s) = map_parsed JObject (json_members (json_value d) s)"
proof -
  have "skip_space s = c # cs" using assms by (simp add: skip_space_def)
  then show "c \<noteq> CHR '']'' \<Longrightarrow> json_value (Suc d) (CHR ''['' # s) = map_parsed JArray (json_elems (json_value d) s)"
    "c \<noteq> CHR ''}'' \<Longrightarrow> json_value (Suc d) (CHR ''{'' # s) = map_parsed JObject (json_members (json_value d) s)"
    unfolding json_value_nested by (simp_all add: has_prefix_def)
qed

lemma json_value_encode:
  assumes "writable v" "json_depth v \<le> d" "is_scalar v \<longrightarrow> delimited t"
  shows "json_value d (json_encode v @ t) = Parsed (valid_json v) t"
  using assms
proof (induction v arbitrary: d t)
  case (JArray vs)
  then obtain d' where d: "d = Suc d'" "foldr max (map json_depth vs) 0 \<le> d'" by (cases d) auto
  note depth = foldr_max_le [OF d(2)]
  show ?case
  proof (cases vs)
    case Nil
    then show ?thesis by (simp add: d json_value_nested has_prefix_def skip_space_def is_json_space_def del: json_value.simps)
  next
    case (Cons w ws)
    then have "writable w" using JArray.prems(1) by simp
    then obtain c cs where c: "json_encode w = c # cs" "\<not> is_json_space c" "c \<noteq> CHR '']''"
      using json_encode_first by metis
    have s: "commas (map json_encode vs) @ u = c # tl (commas (map json_encode vs) @ u)" for u
      using Cons c by (cases ws) simp_all
    have "json_elems (json_value d') (commas (map json_encode vs) @ CHR '']'' # t) = Parsed (map valid_json vs) t"
    proof (rule json_elems_encode)
      fix v u
      assume v: "v \<in> set vs" and u: "delimited u"
      then have "writable v" "json_depth v \<le> d'" using JArray.prems(1) depth by (simp_all add: list_all_iff)
      with v u show "json_value d' (json_encode v @ u) = Parsed (valid_json v) u" by (intro JArray.IH) simp_all
    qed (simp add: Cons)
    with json_value_nonempty(1) [OF s c(2,3)] show ?thesis by (simp add: d del: json_value.simps)
  qed
next
  case (JObject ms)
  then obtain d' where d: "d = Suc d'" "foldr max (map (\<lambda>(k, v). json_depth v) ms) 0 \<le> d'" by (cases d) auto
  note depth = foldr_max_le [OF d(2)]
  show ?case
  proof (cases ms)
    case Nil
    then show ?thesis by (simp add: d json_value_nested has_prefix_def skip_space_def is_json_space_def del: json_value.simps)
  next
    case (Cons m ms')
    obtain k v where m: "m = (k, v)" by (cases m)
    have s: "commas (map encode_member ms) @ u = DQUOTE # tl (commas (map encode_member ms) @ u)" for u
      using Cons m by (cases ms') (simp_all add: encode_string_def)
    have "json_members (json_value d') (commas (map encode_member ms) @ CHR ''}'' # t) =
        Parsed (map (\<lambda>(k, v). (valid_text k, valid_json v)) ms) t"
    proof (rule json_members_encode)
      fix k v u
      assume kv: "(k, v) \<in> set ms" and u: "delimited u"
      then have "writable v" "json_depth v \<le> d'" using JObject.prems(1) depth by (auto simp: list_all_iff)
      with kv u show "json_value d' (json_encode v @ u) = Parsed (valid_json v) u"
        by (intro JObject.IH [of "(k, v)"]) simp_all
    qed (simp add: Cons)
    with json_value_nonempty(2) [OF s] show ?thesis by (simp add: d is_json_space_def del: json_value.simps)
  qed
qed (rule json_encode_scalar, assumption, simp, simp)+


lemma json_decode_encode:
  assumes "writable v" "json_depth v \<le> 10000" "\<not> is_scalar v"
  shows "json_decode (json_encode v @ t) e = Inr (valid_json v)"
  using json_value_encode [OF assms(1), of max_depth t] assms
  by (simp add: json_decode_def max_depth_def is_scalar.simps split: option.split) (cases v; simp)

lemma json_unmarshal_encode:
  assumes "writable v" "json_depth v \<le> 10000"
  shows "json_unmarshal (json_encode v) = Some (valid_json v)"
  using json_value_encode [OF assms(1), of max_depth "[]"] assms
  by (simp add: json_unmarshal_def max_depth_def delimited_def skip_space_def)

lemma json_digits_append:
  assumes "list_all is_digit ds" "ds \<noteq> []" "t = [] \<or> \<not> is_digit (hd t)"
  shows "json_digits (ds @ t) = Parsed ds t"
proof -
  have all: "takeWhile is_digit ds = ds" "dropWhile is_digit ds = []" using assms(1) by (induction ds) auto
  show ?thesis using assms
    by (cases t) (simp_all add: all json_digits_def takeWhile_append2 dropWhile_append2 list_all_iff Let_def)
qed

lemma delimited_cases:
  assumes "delimited t"
  shows "t = [] \<or> \<not> is_digit (hd t)" "json_frac t = Parsed [] t" "json_exp t = Parsed [] t"
  using assms by (cases t; auto simp: delimited_def json_frac_def json_exp_def is_digit_def byte_val_def)+

lemma decimal_leading:
  "0 < n \<Longrightarrow> hd (decimal n) \<noteq> CHR ''0''"
proof (induction n rule: decimal.induct)
  case (1 n)
  show ?case
  proof (cases "n < 10")
    case True
    moreover have "byte_val (CHR ''0'') = 48" by code_simp
    ultimately have "byte_val (char_of (48 + n)) \<noteq> byte_val (CHR ''0'')"
      using 1(2) by (subst byte_val_char_of) simp_all
    then have "char_of (48 + n) \<noteq> CHR ''0''" by metis
    with \<open>n < 10\<close> show ?thesis by (subst decimal.simps) simp
  next
    case False
    with 1 decimal_digits [of "n div 10"] show ?thesis
      by (subst decimal.simps) (simp add: hd_append)
  qed
qed

lemma json_number_nat:
  assumes "0 \<le> n" "delimited t"
  shows "json_number (decimal n @ t) = Parsed (decimal n) t" "json_number (CHR ''-'' # decimal n @ t) = Parsed (CHR ''-'' # decimal n) t"
proof -
  obtain c cs where c: "decimal n = c # cs" "is_digit c" "list_all is_digit cs"
    using decimal_digits [OF assms(1)] by (cases "decimal n") auto
  have "c \<noteq> CHR ''-''" using c(2) by (auto simp: is_digit_def byte_val_def)
  moreover have "(if c = CHR ''0'' then Parsed [c] (cs @ t) else json_digits (decimal n @ t)) = Parsed (decimal n) t"
  proof (cases "n = 0")
    case True
    moreover have "decimal 0 = ''0''" by code_simp
    ultimately show ?thesis using c by simp
  next
    case False
    then have "c \<noteq> CHR ''0''" using decimal_leading [of n] assms(1) c by simp
    then show ?thesis using json_digits_append [OF _ _ delimited_cases(1) [OF assms(2)], of "decimal n"] c by simp
  qed
  ultimately show "json_number (decimal n @ t) = Parsed (decimal n) t" "json_number (CHR ''-'' # decimal n @ t) = Parsed (CHR ''-'' # decimal n) t"
    using c delimited_cases [OF assms(2)] by (auto simp: json_number_def)
qed

lemma number_text_itoa: "number_text (itoa n)"
proof (cases "n < 0")
  case True
  with json_number_nat [of "- n"] show ?thesis by (simp add: number_text_def itoa_def)
next
  case False
  with json_number_nat [of n] decimal_digits [of n] show ?thesis
    by (cases "decimal n") (auto simp: number_text_def itoa_def)
qed

text \<open>Storing into a struct of one or more fields, by the key of each member.\<close>

lemma field_matches_refl [simp]: "field_matches k k"
  by (simp add: field_matches_def)

lemma decode_into_encode:
  assumes "writable v" "json_depth v \<le> 10000" "\<not> is_scalar v"
  shows "decode_into f zero (json_encode v @ t) e =
    (let (x, ok) = store_struct f (valid_json v) zero in if ok then Inr x else Inl TypeError)"
  by (simp add: decode_into_def json_decode_encode [OF assms])

lemma unmarshal_into_encode:
  assumes "writable v" "json_depth v \<le> 10000"
  shows "unmarshal_into f zero (json_encode v) =
    (let (x, ok) = store_struct f (valid_json v) zero in if ok then Some x else None)"
  by (simp add: unmarshal_into_def json_unmarshal_encode [OF assms])

end
