(* ===== verification/Provider.thy ===== *)
theory Provider
  imports Output_Window Go_Json
begin

text \<open>
  The backends behind the interface \<open>Adapter\<close>: \<open>internal/provider/mock.go\<close> and
  \<open>openai_compat.go\<close>.  The HTTP exchange with the backend is a parameter (\<open>http_client\<close>);
  the bodies are written and read with the JSON of theory \<open>Go_Json\<close>.  The body of a response
  is the list of its reads and an optional error after them.  Both streaming methods touch
  their writer only by calling its \<open>Write\<close>; the locale \<open>stream_source\<close> states that, and what
  follows for every invariant of the writer.
\<close>

subsection \<open>Data\<close>

record generate_result =
  gr_text :: string
  gr_input_tokens :: int
  gr_output_tokens :: int
  gr_model :: string

text \<open>
  An error that comes from outside carries whether \<open>errors.Is\<close> finds
  \<open>context.DeadlineExceeded\<close> in it; wrapping with \<open>%w\<close> keeps that.
\<close>

record ext_error =
  ee_deadline :: bool
  ee_text :: string

datatype 'e provider_error =
    BuildRequest ext_error
  | DoRequest ext_error
  | BadStatus int bytes
  | DecodeResponse "ext_error json_error"
  | BodyRead ext_error
  | WriteError 'e
  | ShortWrite
  | LineTooLong

fun is_deadline :: "'e provider_error \<Rightarrow> bool" where
  "is_deadline (BuildRequest e) = ee_deadline e"
| "is_deadline (DoRequest e) = ee_deadline e"
| "is_deadline (DecodeResponse (ReadError e)) = ee_deadline e"
| "is_deadline (BodyRead e) = ee_deadline e"
| "is_deadline _ = False"

record http_request =
  hq_url :: string
  hq_headers :: "(string \<times> string) list"
  hq_body :: bytes

record http_response =
  hr_status :: int
  hr_reads :: "bytes list"
  hr_error :: "ext_error option"

text \<open>The client: the request cannot be built, the exchange fails, or there is a response.\<close>

datatype exchange = NoRequest ext_error | NoResponse ext_error | Response http_response

type_synonym http_client = "http_request \<Rightarrow> exchange"

text \<open>
  The structs of the answers.  The choices are a slice: the array behind it and its length.
  A choice is the content of its message and the content of its delta.
\<close>

record oai_choice =
  oc_message :: bytes
  oc_delta :: bytes

record oai_response =
  or_model :: bytes
  or_slice :: "oai_choice list \<times> nat"
  or_prompt_tokens :: int
  or_completion_tokens :: int

definition or_choices :: "oai_response \<Rightarrow> oai_choice list" where
  "or_choices r = take (snd (or_slice r)) (fst (or_slice r))"

definition json_header :: "string \<times> string" where
  "json_header = (''Content-Type'', ''application/json'')"

text \<open>The requests: \<open>mockRequest\<close>, and \<open>oaiRequest\<close> with one message of the user.\<close>

definition mock_request :: "bytes \<Rightarrow> bytes" where
  "mock_request prompt = json_encode (JObject [(''prompt'', JString prompt)])"

definition oai_request :: "bytes \<Rightarrow> bool \<Rightarrow> bytes \<Rightarrow> bytes" where
  "oai_request model streaming prompt =
     json_encode (JObject
       [(''model'', JString model),
        (''messages'', JArray [JObject [(''role'', JString ''user''), (''content'', JString prompt)]]),
        (''stream'', JBool streaming)])"

text \<open>The answers: \<open>mockResponse\<close> and \<open>oaiResponse\<close>, field by field.\<close>

definition store_mock_response :: "bytes \<Rightarrow> json \<Rightarrow> generate_result \<Rightarrow> generate_result \<times> bool" where
  "store_mock_response k v r =
     (if field_matches k ''response'' then apfst (\<lambda>x. r\<lparr>gr_text := x\<rparr>) (store_string v (gr_text r))
      else if field_matches k ''model'' then apfst (\<lambda>x. r\<lparr>gr_model := x\<rparr>) (store_string v (gr_model r))
      else if field_matches k ''input_tokens'' then apfst (\<lambda>x. r\<lparr>gr_input_tokens := x\<rparr>) (store_int v (gr_input_tokens r))
      else if field_matches k ''output_tokens'' then apfst (\<lambda>x. r\<lparr>gr_output_tokens := x\<rparr>) (store_int v (gr_output_tokens r))
      else (r, True))"

definition no_result :: generate_result where
  "no_result = \<lparr>gr_text = [], gr_input_tokens = 0, gr_output_tokens = 0, gr_model = []\<rparr>"

definition mock_response :: "bytes \<Rightarrow> ext_error option \<Rightarrow> ext_error json_error + generate_result" where
  "mock_response = decode_into store_mock_response no_result"

definition store_content :: "bytes \<Rightarrow> json \<Rightarrow> bytes \<Rightarrow> bytes \<times> bool" where
  "store_content k v x = (if field_matches k ''content'' then store_string v x else (x, True))"

definition store_choice :: "bytes \<Rightarrow> json \<Rightarrow> oai_choice \<Rightarrow> oai_choice \<times> bool" where
  "store_choice k v c =
     (if field_matches k ''message'' then apfst (\<lambda>x. c\<lparr>oc_message := x\<rparr>) (store_struct store_content v (oc_message c))
      else if field_matches k ''delta'' then apfst (\<lambda>x. c\<lparr>oc_delta := x\<rparr>) (store_struct store_content v (oc_delta c))
      else (c, True))"

definition store_usage :: "bytes \<Rightarrow> json \<Rightarrow> oai_response \<Rightarrow> oai_response \<times> bool" where
  "store_usage k v r =
     (if field_matches k ''prompt_tokens''
      then apfst (\<lambda>x. r\<lparr>or_prompt_tokens := x\<rparr>) (store_int v (or_prompt_tokens r))
      else if field_matches k ''completion_tokens''
      then apfst (\<lambda>x. r\<lparr>or_completion_tokens := x\<rparr>) (store_int v (or_completion_tokens r))
      else (r, True))"

definition no_choice :: oai_choice where
  "no_choice = \<lparr>oc_message = [], oc_delta = []\<rparr>"

definition no_response :: oai_response where
  "no_response = \<lparr>or_model = [], or_slice = ([], 0), or_prompt_tokens = 0, or_completion_tokens = 0\<rparr>"

definition store_oai_response :: "bytes \<Rightarrow> json \<Rightarrow> oai_response \<Rightarrow> oai_response \<times> bool" where
  "store_oai_response k v r =
     (if field_matches k ''model'' then apfst (\<lambda>x. r\<lparr>or_model := x\<rparr>) (store_string v (or_model r))
      else if field_matches k ''choices''
      then apfst (\<lambda>x. r\<lparr>or_slice := x\<rparr>) (store_slice (store_struct store_choice) no_choice v (or_slice r))
      else if field_matches k ''usage'' then store_struct store_usage v r
      else (r, True))"

definition oai_decode :: "bytes \<Rightarrow> ext_error option \<Rightarrow> ext_error json_error + oai_response" where
  "oai_decode = decode_into store_oai_response no_response"

definition oai_unmarshal :: "bytes \<Rightarrow> oai_response option" where
  "oai_unmarshal = unmarshal_into store_oai_response no_response"

subsection \<open>\<open>io.Copy\<close>\<close>

fun io_copy :: "('w, 'e) writer \<Rightarrow> 'w \<Rightarrow> bytes list \<Rightarrow> ext_error option \<Rightarrow> 'w \<times> 'e provider_error option" where
  "io_copy wr w [] rd_err = (w, map_option BodyRead rd_err)"
| "io_copy wr w (p # ps) rd_err =
     (if p = [] then io_copy wr w ps rd_err
      else
        (let (w', n, err) = wr w p
         in case err of
              Some e \<Rightarrow> (w', Some (WriteError e))
            | None \<Rightarrow> if n \<noteq> length p then (w', Some ShortWrite) else io_copy wr w' ps rd_err))"

subsection \<open>The mock adapter\<close>

record mock_adapter =
  ma_base_url :: string

definition mock_http :: "mock_adapter \<Rightarrow> string \<Rightarrow> string \<Rightarrow> http_request" where
  "mock_http a path prompt =
     \<lparr>hq_url = ma_base_url a @ path, hq_headers = [json_header], hq_body = mock_request prompt\<rparr>"

definition mock_Generate ::
  "http_client \<Rightarrow> mock_adapter \<Rightarrow> string \<Rightarrow> 'e provider_error + generate_result" where
  "mock_Generate http a prompt =
     (case http (mock_http a ''/generate'' prompt) of
        NoRequest e \<Rightarrow> Inl (BuildRequest e)
      | NoResponse e \<Rightarrow> Inl (DoRequest e)
      | Response resp \<Rightarrow>
          if hr_status resp \<noteq> 200 then Inl (BadStatus (hr_status resp) [])
          else (case mock_response (concat (hr_reads resp)) (hr_error resp) of
                  Inl e \<Rightarrow> Inl (DecodeResponse e)
                | Inr r \<Rightarrow> Inr r))"

definition mock_StreamTo ::
  "http_client \<Rightarrow> mock_adapter \<Rightarrow> string \<Rightarrow> ('w, 'e) writer \<Rightarrow> 'w \<Rightarrow> 'w \<times> 'e provider_error option" where
  "mock_StreamTo http a prompt wr dst =
     (case http (mock_http a ''/stream'' prompt) of
        NoRequest e \<Rightarrow> (dst, Some (BuildRequest e))
      | NoResponse e \<Rightarrow> (dst, Some (DoRequest e))
      | Response resp \<Rightarrow> io_copy wr dst (hr_reads resp) (hr_error resp))"

subsection \<open>The OpenAI-compatible adapter\<close>

record oai_adapter =
  oa_base_url :: string
  oa_api_key :: string
  oa_model :: string

definition trim_slashes :: "string \<Rightarrow> string" where
  "trim_slashes s = rev (dropWhile (\<lambda>c. c = CHR ''/'') (rev s))"

definition NewOpenAICompatAdapter :: "string \<Rightarrow> string \<Rightarrow> string \<Rightarrow> oai_adapter" where
  "NewOpenAICompatAdapter base_url api_key model =
     \<lparr>oa_base_url = trim_slashes base_url, oa_api_key = api_key, oa_model = model\<rparr>"

definition oai_http :: "oai_adapter \<Rightarrow> bool \<Rightarrow> string \<Rightarrow> http_request" where
  "oai_http a streaming prompt =
     \<lparr>hq_url = oa_base_url a @ ''/chat/completions'',
      hq_headers = [json_header, (''Authorization'', ''Bearer '' @ oa_api_key a)] @
        (if streaming then [(''Accept'', ''text/event-stream'')] else []),
      hq_body = oai_request (oa_model a) streaming prompt\<rparr>"

definition oai_Generate ::
  "http_client \<Rightarrow> oai_adapter \<Rightarrow> string \<Rightarrow> 'e provider_error + generate_result" where
  "oai_Generate http a prompt =
     (case http (oai_http a False prompt) of
        NoRequest e \<Rightarrow> Inl (BuildRequest e)
      | NoResponse e \<Rightarrow> Inl (DoRequest e)
      | Response resp \<Rightarrow>
          if hr_status resp \<noteq> 200 then Inl (BadStatus (hr_status resp) (concat (hr_reads resp)))
          else (case oai_decode (concat (hr_reads resp)) (hr_error resp) of
                  Inl e \<Rightarrow> Inl (DecodeResponse e)
                | Inr r \<Rightarrow>
                    Inr \<lparr>gr_text = (case or_choices r of [] \<Rightarrow> [] | c # _ \<Rightarrow> oc_message c),
                         gr_input_tokens = or_prompt_tokens r, gr_output_tokens = or_completion_tokens r,
                         gr_model = or_model r\<rparr>))"

text \<open>
  The loop over the lines of the stream.  The result of each \<open>Fprintf\<close> to the writer is
  ignored; when the terminator ends the loop, the lines after it are returned.
\<close>

fun oai_lines :: "('w, 'e) writer \<Rightarrow> 'w \<Rightarrow> bytes list \<Rightarrow> 'w \<times> bytes list option" where
  "oai_lines wr w [] = (w, None)"
| "oai_lines wr w (line # ls) =
     (if \<not> has_prefix line ''data: '' then oai_lines wr w ls
      else
        (let payload = drop (length ''data: '') line
         in if payload = ''[DONE]'' then (fst (wr w sse_done), Some ls)
            else
              (case oai_unmarshal payload of
                 None \<Rightarrow> oai_lines wr w ls
               | Some chunk \<Rightarrow>
                   (case or_choices chunk of
                      [] \<Rightarrow> oai_lines wr w ls
                    | c # _ \<Rightarrow>
                        if oc_delta c = [] then oai_lines wr w ls
                        else oai_lines wr (fst (wr w (sse_event (oc_delta c)))) ls))))"

text \<open>
  The error of the scanner, if any.  A loop that ends at the terminator leaves the rest of
  the body unread, unless the terminator was the unterminated last line: the scanner has
  then met the end of the body, and its error if there is one.
\<close>

definition scanner_err :: "http_response \<Rightarrow> bool \<Rightarrow> bytes list option \<Rightarrow> 'e provider_error option" where
  "scanner_err resp too_long after =
     (case after of
        None \<Rightarrow> if too_long then Some LineTooLong else map_option BodyRead (hr_error resp)
      | Some ls \<Rightarrow>
          if ls = [] \<and> \<not> too_long \<and> last (concat (hr_reads resp)) \<noteq> NL
          then map_option BodyRead (hr_error resp) else None)"

definition oai_StreamTo ::
  "http_client \<Rightarrow> oai_adapter \<Rightarrow> string \<Rightarrow> ('w, 'e) writer \<Rightarrow> 'w \<Rightarrow> 'w \<times> 'e provider_error option" where
  "oai_StreamTo http a prompt wr dst =
     (case http (oai_http a True prompt) of
        NoRequest e \<Rightarrow> (dst, Some (BuildRequest e))
      | NoResponse e \<Rightarrow> (dst, Some (DoRequest e))
      | Response resp \<Rightarrow>
          if hr_status resp \<noteq> 200 then (dst, Some (BadStatus (hr_status resp) (concat (hr_reads resp))))
          else
            (let (ls, too_long) = scan_lines (concat (hr_reads resp));
                 (w, after) = oai_lines wr dst ls
             in (w, scanner_err resp too_long after)))"

subsection \<open>What a streaming method may do with its writer\<close>

fun write_all :: "('w, 'e) writer \<Rightarrow> 'w \<Rightarrow> bytes list \<Rightarrow> 'w" where
  "write_all wr w [] = w"
| "write_all wr w (p # ps) = write_all wr (fst (wr w p)) ps"

locale stream_source =
  fixes stream_to :: "string \<Rightarrow> ('w, 'e) writer \<Rightarrow> 'w \<Rightarrow> 'w \<times> 'e provider_error option"
  assumes only_writes: "\<exists>ps. fst (stream_to prompt wr w) = write_all wr w ps"
begin

lemma write_all_preserves:
  "(\<And>w p. I w \<Longrightarrow> I (fst (wr w p))) \<Longrightarrow> I w \<Longrightarrow> I (write_all wr w ps)"
  by (induction ps arbitrary: w) auto

lemma preserves:
  assumes "\<And>w p. I w \<Longrightarrow> I (fst (wr w p))" and "I w"
  shows "I (fst (stream_to prompt wr w))"
proof -
  obtain ps where "fst (stream_to prompt wr w) = write_all wr w ps" using only_writes by blast
  with write_all_preserves [OF assms] show ?thesis by simp
qed

end

text \<open>
  A source with a fixed list of chunks, whatever writer it is given: it writes them in order,
  and when it stops before the last one it reports an error.
\<close>

locale chunk_source =
  fixes stream_to :: "string \<Rightarrow> ('w, 'e) writer \<Rightarrow> 'w \<Rightarrow> 'w \<times> 'e provider_error option"
    and chunks :: "string \<Rightarrow> bytes list"
  assumes writes_chunks: "\<exists>n. fst (stream_to prompt wr w) = write_all wr w (take n (chunks prompt)) \<and>
    (snd (stream_to prompt wr w) = None \<longrightarrow> length (chunks prompt) \<le> n)"

sublocale chunk_source \<subseteq> stream_source stream_to
  by unfold_locales (use writes_chunks in blast)

text \<open>The chunks of an adapter are the writes a recording writer sees.\<close>

definition record_write :: "(bytes list, unit) writer" where
  "record_write ps p = (ps @ [p], length p, None)"

definition mock_chunks :: "http_client \<Rightarrow> mock_adapter \<Rightarrow> string \<Rightarrow> bytes list" where
  "mock_chunks http a prompt = fst (mock_StreamTo http a prompt record_write [])"

definition oai_chunks :: "http_client \<Rightarrow> oai_adapter \<Rightarrow> string \<Rightarrow> bytes list" where
  "oai_chunks http a prompt = fst (oai_StreamTo http a prompt record_write [])"

lemma io_copy_record: "fst (io_copy record_write acc ps e) = acc @ filter (\<lambda>p. p \<noteq> []) ps"
  by (induction ps arbitrary: acc) (auto simp: record_write_def)

lemma io_copy_chunks:
  "\<exists>n. fst (io_copy wr w ps e) = write_all wr w (take n (filter (\<lambda>p. p \<noteq> []) ps)) \<and>
     (snd (io_copy wr w ps e) = None \<longrightarrow> length (filter (\<lambda>p. p \<noteq> []) ps) \<le> n)"
proof (induction ps arbitrary: w)
  case (Cons p ps)
  obtain w' n err where wr: "wr w p = (w', n, err)" by (cases "wr w p") auto
  obtain i where i: "fst (io_copy wr w' ps e) = write_all wr w' (take i (filter (\<lambda>p. p \<noteq> []) ps))"
    "snd (io_copy wr w' ps e) = None \<longrightarrow> length (filter (\<lambda>p. p \<noteq> []) ps) \<le> i"
    using Cons by blast
  consider "p = []" | "p \<noteq> []" "err = None" "n = length p" | "p \<noteq> []" "err \<noteq> None \<or> n \<noteq> length p" by blast
  then show ?case
  proof cases
    case 1
    with Cons [of w] show ?thesis by simp
  next
    case 2
    with i wr show ?thesis by (intro exI [of _ "Suc i"]) simp
  next
    case 3
    with wr show ?thesis by (intro exI [of _ 1]) (auto split: option.split)
  qed
qed simp

interpretation mock: chunk_source "mock_StreamTo http a" "mock_chunks http a" for http a
proof
  fix prompt wr w
  show "\<exists>n. fst (mock_StreamTo http a prompt wr w) = write_all wr w (take n (mock_chunks http a prompt)) \<and>
      (snd (mock_StreamTo http a prompt wr w) = None \<longrightarrow> length (mock_chunks http a prompt) \<le> n)"
  proof (cases "http (mock_http a ''/stream'' prompt)")
    case (Response resp)
    then have "mock_chunks http a prompt = filter (\<lambda>p. p \<noteq> []) (hr_reads resp)"
      by (simp add: mock_chunks_def mock_StreamTo_def io_copy_record)
    with Response io_copy_chunks [of wr w "hr_reads resp" "hr_error resp"] show ?thesis
      by (simp add: mock_StreamTo_def)
  qed (rule exI [of _ 0], simp add: mock_StreamTo_def)+
qed

lemma write_all_append: "write_all wr w (ps @ qs) = write_all wr (write_all wr w ps) qs"
  by (induction ps arbitrary: w) auto

text \<open>The text a payload contributes: the delta of the first choice, empty if there is none.\<close>

definition delta_of :: "bytes \<Rightarrow> bytes" where
  "delta_of payload =
     (case oai_unmarshal payload of
        None \<Rightarrow> []
      | Some chunk \<Rightarrow> (case or_choices chunk of [] \<Rightarrow> [] | c # _ \<Rightarrow> oc_delta c))"

lemma oai_lines_Cons:
  "oai_lines wr w (line # ls) =
     (if \<not> has_prefix line ''data: '' then oai_lines wr w ls
      else
        (let payload = drop (length ''data: '') line
         in if payload = ''[DONE]'' then (fst (wr w sse_done), Some ls)
            else if delta_of payload = [] then oai_lines wr w ls
            else oai_lines wr (fst (wr w (sse_event (delta_of payload)))) ls))"
  by (simp add: delta_of_def Let_def split: option.split list.split)

declare oai_lines.simps(2) [simp del]

lemma oai_lines_chunks:
  "\<exists>ps rest. (\<forall>w. oai_lines wr w ls = (write_all wr w ps, rest)) \<and>
     (\<forall>acc. oai_lines record_write acc ls = (acc @ ps, rest))"
proof (induction ls)
  case (Cons line ls)
  let ?payload = "drop (length ''data: '') line"
  from Cons obtain ps rest where ls: "\<forall>w. oai_lines wr w ls = (write_all wr w ps, rest)"
    "\<forall>acc. oai_lines record_write acc ls = (acc @ ps, rest)" by blast
  have event: "\<exists>qs r. (\<forall>w. oai_lines wr (fst (wr w d)) ls = (write_all wr w qs, r)) \<and>
      (\<forall>acc. oai_lines record_write (fst (record_write acc d)) ls = (acc @ qs, r))" for d
    by (intro exI [of _ "d # ps"] exI [of _ rest]) (simp add: ls record_write_def)
  have finish: "\<exists>qs r. (\<forall>w. (fst (wr w sse_done), Some ls) = (write_all wr w qs, r)) \<and>
      (\<forall>acc. (fst (record_write acc sse_done), Some ls) = (acc @ qs, r))"
    by (intro exI [of _ "[sse_done]"] exI [of _ "Some ls"]) (simp add: record_write_def)
  consider (skip) "\<not> has_prefix line ''data: '' \<or> ?payload \<noteq> ''[DONE]'' \<and> delta_of ?payload = []"
    | (stop) "has_prefix line ''data: ''" "?payload = ''[DONE]''"
    | (emit) "has_prefix line ''data: ''" "?payload \<noteq> ''[DONE]''" "delta_of ?payload \<noteq> []" by blast
  then show ?case
  proof cases
    case skip
    with Cons show ?thesis
      by (cases "has_prefix line ''data: ''") (simp_all add: oai_lines_Cons Let_def)
  next
    case stop
    with finish show ?thesis by (simp add: oai_lines_Cons Let_def)
  next
    case emit
    with event [of "sse_event (delta_of ?payload)"] show ?thesis by (simp add: oai_lines_Cons Let_def)
  qed
qed simp

lemma oai_StreamTo_chunks:
  "fst (oai_StreamTo http a prompt wr w) = write_all wr w (oai_chunks http a prompt)"
proof (cases "\<exists>resp. http (oai_http a True prompt) = Response resp \<and> hr_status resp = 200")
  case True
  then obtain resp where resp: "http (oai_http a True prompt) = Response resp" "hr_status resp = 200" by blast
  let ?ls = "fst (scan_lines (concat (hr_reads resp)))"
  obtain ps rest where "\<forall>w. oai_lines wr w ?ls = (write_all wr w ps, rest)"
    "\<forall>acc. oai_lines record_write acc ?ls = (acc @ ps, rest)"
    using oai_lines_chunks by blast
  with resp show ?thesis by (simp add: oai_StreamTo_def oai_chunks_def Let_def case_prod_beta)
next
  case False
  then show ?thesis by (simp add: oai_StreamTo_def oai_chunks_def split: exchange.split)
qed

interpretation oai: chunk_source "oai_StreamTo http a" "oai_chunks http a" for http a
proof
  fix prompt wr w
  show "\<exists>n. fst (oai_StreamTo http a prompt wr w) = write_all wr w (take n (oai_chunks http a prompt)) \<and>
      (snd (oai_StreamTo http a prompt wr w) = None \<longrightarrow> length (oai_chunks http a prompt) \<le> n)"
    by (rule exI [of _ "length (oai_chunks http a prompt)"]) (simp add: oai_StreamTo_chunks)
qed

subsection \<open>The translation of the OpenAI stream\<close>

definition deltas :: "bytes list \<Rightarrow> bytes list" where
  "deltas payloads = filter (\<lambda>d. d \<noteq> []) (map (delta_of) payloads)"

lemma oai_lines_event:
  assumes "payload \<noteq> ''[DONE]''"
  shows "oai_lines wr w ((''data: '' @ payload) # ls) =
    (if delta_of payload = [] then oai_lines wr w ls
     else oai_lines wr (fst (wr w (sse_event (delta_of payload)))) ls)"
  using assms by (simp add: oai_lines_Cons has_prefix_def)

lemma write_all_buffer: "write_all buffer_write b ps = b @ concat ps"
  by (induction ps arbitrary: b) (simp_all add: buffer_write_def)

lemma write_all_record: "write_all record_write acc ps = acc @ ps"
  by (induction ps arbitrary: acc) (simp_all add: record_write_def)

lemma oai_lines_stream:
  "list_all event_payload payloads \<Longrightarrow>
   oai_lines wr w (fst (scan_lines (concat (map sse_event payloads) @ sse_done @ rest))) =
     (write_all wr w (map sse_event (deltas payloads) @ [sse_done]), Some ([] # fst (scan_lines rest)))"
proof (induction payloads arbitrary: w)
  case Nil
  show ?case
    unfolding list.map concat.simps append_Nil scan_done fst_conv
    by (simp add: oai_lines_Cons has_prefix_def deltas_def)
next
  case (Cons p ps)
  then have p: "event_payload p" "p \<noteq> ''[DONE]''" by (auto simp: event_payload_def)
  have skip: "oai_lines wr w ([] # ls) = oai_lines wr w ls" for w ls
    by (simp add: oai_lines_Cons has_prefix_def)
  show ?case
    using Cons
    unfolding list.map concat.simps append_assoc scan_event [OF p(1)] fst_conv oai_lines_event [OF p(2)] skip
    by (simp add: deltas_def)
qed

lemma oai_StreamTo_events:
  assumes "http (oai_http a True prompt) = Response resp" and "hr_status resp = 200"
    and "concat (hr_reads resp) = concat (map sse_event payloads) @ sse_done @ rest"
    and "list_all event_payload payloads"
  shows "oai_StreamTo http a prompt wr w = (write_all wr w (map sse_event (deltas payloads) @ [sse_done]), None)"
  using assms(1,2) oai_lines_stream [OF assms(4), of wr w rest]
  by (simp add: oai_StreamTo_def scanner_err_def assms(3) Let_def case_prod_beta)

lemma oai_chunks_events:
  assumes "http (oai_http a True prompt) = Response resp" and "hr_status resp = 200"
    and "concat (hr_reads resp) = concat (map sse_event payloads) @ sse_done @ rest"
    and "list_all event_payload payloads"
  shows "oai_chunks http a prompt = map sse_event (deltas payloads) @ [sse_done]"
  by (simp add: oai_chunks_def oai_StreamTo_events [where http = http, OF assms] write_all_record)

subsection \<open>Properties\<close>

text \<open>
  C24: the OpenAI adapter translates the stream faithfully.  From a response with the events
  of any payloads and the terminator, cut into reads in any way, it writes one event for
  each non-empty delta, in order, and the terminator; malformed payloads, payloads without
  a choice and whatever follows the terminator contribute nothing, and no error is
  reported.
\<close>

theorem oai_stream_translates:
  assumes "http (oai_http a True prompt) = Response resp" and "hr_status resp = 200"
    and "concat (hr_reads resp) = concat (map sse_event payloads) @ sse_done @ rest"
    and "list_all event_payload payloads"
  shows "oai_StreamTo http a prompt buffer_write b =
    (b @ concat (map sse_event (deltas payloads)) @ sse_done, None)"
  by (simp add: oai_StreamTo_events [where http = http, OF assms] write_all_buffer)

text \<open>The chunk a backend streams for a piece of text, and what the adapter reads in it.\<close>

definition delta_chunk :: "bytes \<Rightarrow> bytes" where
  "delta_chunk d = json_encode (JObject [(''choices'', JArray [JObject [(''delta'', JObject [(''content'', JString d)])]])])"

lemma oai_fields [simp]:
  "field_matches ''choices'' ''choices''" "\<not> field_matches ''choices'' ''model''"
  "\<not> field_matches ''delta'' ''message''"
  by code_simp+

lemma delta_chunk [simp]: "delta_of (delta_chunk d) = valid_text d"
proof -
  have keys: "valid_text ''choices'' = ''choices''" "valid_text ''delta'' = ''delta''" "valid_text ''content'' = ''content''"
    by (rule valid_text_ascii, code_simp)+
  have "json_unmarshal (delta_chunk d) =
      Some (JObject [(''choices'', JArray [JObject [(''delta'', JObject [(''content'', JString (valid_text d))])]])])"
    unfolding delta_chunk_def by (subst json_unmarshal_encode) (simp_all add: keys)
  then show ?thesis
    by (simp add: delta_of_def oai_unmarshal_def unmarshal_into_def store_struct_def store_oai_response_def
        store_slice_def store_choice_def store_content_def store_string_def no_choice_def no_response_def or_choices_def)
qed

lemma delta_chunk_length:
  "length (delta_chunk ''Hel'') = 41" "length (delta_chunk ''lo'') = 40"
  by code_simp+

lemma event_payload_chunk:
  "NL \<notin> set (delta_chunk d) \<Longrightarrow> length (delta_chunk d) < 65000 \<Longrightarrow> event_payload (delta_chunk d)"
  by (simp add: event_payload_def max_line_def delta_chunk_def)

definition demo_stream :: http_response where
  "demo_stream = \<lparr>hr_status = 200,
     hr_reads = [sse_event (delta_chunk ''Hel'') @ ''data: '' @ take 9 (delta_chunk ''lo''),
       drop 9 (delta_chunk ''lo'') @ [NL, NL] @ sse_done], hr_error = None\<rparr>"

lemma oai_stream_translates_witness:
  "oai_StreamTo (\<lambda>_. Response demo_stream) (NewOpenAICompatAdapter ''http://x/'' ''k'' ''m'') ''Hi'' buffer_write [] =
   ([] @ concat (map sse_event (deltas [delta_chunk ''Hel'', delta_chunk ''lo''])) @ sse_done, None) \<and>
   deltas [delta_chunk ''Hel'', delta_chunk ''lo''] = [''Hel'', ''lo'']"
proof
  show "oai_StreamTo (\<lambda>_. Response demo_stream) (NewOpenAICompatAdapter ''http://x/'' ''k'' ''m'') ''Hi'' buffer_write [] =
    ([] @ concat (map sse_event (deltas [delta_chunk ''Hel'', delta_chunk ''lo''])) @ sse_done, None)"
  proof (rule oai_stream_translates)
    have cut: "take 9 x @ drop 9 x @ y = x @ y" for x y :: bytes by (simp flip: append_assoc)
    show "concat (hr_reads demo_stream) = concat (map sse_event [delta_chunk ''Hel'', delta_chunk ''lo'']) @ sse_done @ []"
      by (simp add: demo_stream_def sse_event_def cut)
    have "NL \<notin> set (delta_chunk ''Hel'')" "NL \<notin> set (delta_chunk ''lo'')" by code_simp+
    then show "list_all event_payload [delta_chunk ''Hel'', delta_chunk ''lo'']"
      by (simp add: event_payload_chunk delta_chunk_length)
  qed (simp_all add: demo_stream_def)
  have "is_ascii ''Hel''" "is_ascii ''lo''" by code_simp+
  then show "deltas [delta_chunk ''Hel'', delta_chunk ''lo''] = [''Hel'', ''lo'']"
    by (simp add: deltas_def valid_text_ascii)
qed

end
