(* ===== verification/Gateway_Config.thy ===== *)
theory Gateway_Config
  imports Go_Strconv
begin

text \<open>
  The configuration, \<open>internal/config/config.go\<close>.  The environment is a function from names
  to values, empty for a variable that is not set, as \<open>os.Getenv\<close> reads it.
\<close>

type_synonym environ = "string \<Rightarrow> string"

record config =
  cfg_ListenAddr :: string
  cfg_MockLLMAddr :: string
  cfg_MaxBodyBytes :: int
  cfg_LogLevel :: string
  cfg_WindowSize :: int
  cfg_PolicyFile :: string
  cfg_RedisAddr :: string
  cfg_RedisPassword :: string
  cfg_RateLimitPerMinute :: int
  cfg_DailyTokenQuota :: int
  cfg_LLMProvider :: string
  cfg_LLMAPIKey :: string
  cfg_LLMModel :: string
  cfg_LLMBaseURL :: string

definition getEnv :: "environ \<Rightarrow> string \<Rightarrow> string \<Rightarrow> string" where
  "getEnv env key fallback = (if env key \<noteq> [] then env key else fallback)"

definition getEnvInt64 :: "environ \<Rightarrow> string \<Rightarrow> int \<Rightarrow> int" where
  "getEnvInt64 env key fallback =
     (if env key \<noteq> [] then (case parse_int (env key) of Some n \<Rightarrow> n | None \<Rightarrow> fallback) else fallback)"

definition getEnvInt :: "environ \<Rightarrow> string \<Rightarrow> int \<Rightarrow> int" where
  "getEnvInt env key fallback =
     (if env key \<noteq> [] then (case parse_int (env key) of Some n \<Rightarrow> n | None \<Rightarrow> fallback) else fallback)"

definition Load :: "environ \<Rightarrow> config" where
  "Load env =
     \<lparr>cfg_ListenAddr = getEnv env ''GATEWAY_LISTEN_ADDR'' '':8080'',
      cfg_MockLLMAddr = getEnv env ''MOCK_LLM_ADDR'' ''http://localhost:9090'',
      cfg_MaxBodyBytes = getEnvInt64 env ''GATEWAY_MAX_BODY_BYTES'' (512 * 1024),
      cfg_LogLevel = getEnv env ''GATEWAY_LOG_LEVEL'' ''info'',
      cfg_WindowSize = getEnvInt env ''GATEWAY_WINDOW_SIZE'' 512,
      cfg_PolicyFile = getEnv env ''GATEWAY_POLICY_FILE'' ''configs/dev.policy'',
      cfg_RedisAddr = getEnv env ''REDIS_ADDR'' [],
      cfg_RedisPassword = getEnv env ''REDIS_PASSWORD'' [],
      cfg_RateLimitPerMinute = getEnvInt env ''RATE_LIMIT_PER_MINUTE'' 60,
      cfg_DailyTokenQuota = getEnvInt64 env ''DAILY_TOKEN_QUOTA'' 100000,
      cfg_LLMProvider = getEnv env ''LLM_PROVIDER'' ''mock'',
      cfg_LLMAPIKey = getEnv env ''LLM_API_KEY'' [],
      cfg_LLMModel = getEnv env ''LLM_MODEL'' [],
      cfg_LLMBaseURL = getEnv env ''LLM_BASE_URL'' []\<rparr>"

lemma getEnvInt_itoa:
  assumes "int64_ok n" and "env key = itoa n"
  shows "getEnvInt64 env key fallback = n" "getEnvInt env key fallback = n"
proof -
  have "itoa n \<noteq> []" using decimal_digits [of n] by (auto simp: itoa_def)
  with assms show "getEnvInt64 env key fallback = n" "getEnvInt env key fallback = n"
    by (simp_all add: getEnvInt64_def getEnvInt_def parse_itoa)
qed

lemma getEnvInt_bad:
  assumes "parse_int (env key) = None"
  shows "getEnvInt64 env key fallback = fallback" "getEnvInt env key fallback = fallback"
  using assms by (simp_all add: getEnvInt64_def getEnvInt_def)

subsection \<open>Properties\<close>

text \<open>
  The limits the operator writes are the limits in force.  A decimal number in the
  64-bit range in one of the four numeric variables is read back exactly, and a variable
  that is not set, or holds something that is no such number, leaves the default.
\<close>

theorem limits_read_back:
  assumes "int64_ok n"
  shows "cfg_MaxBodyBytes (Load (env(''GATEWAY_MAX_BODY_BYTES'' := itoa n))) = n \<and>
    cfg_WindowSize (Load (env(''GATEWAY_WINDOW_SIZE'' := itoa n))) = n \<and>
    cfg_RateLimitPerMinute (Load (env(''RATE_LIMIT_PER_MINUTE'' := itoa n))) = n \<and>
    cfg_DailyTokenQuota (Load (env(''DAILY_TOKEN_QUOTA'' := itoa n))) = n \<and>
    (parse_int v = None \<longrightarrow> cfg_WindowSize (Load (env(''GATEWAY_WINDOW_SIZE'' := v))) = 512 \<and>
       cfg_MaxBodyBytes (Load (env(''GATEWAY_MAX_BODY_BYTES'' := v))) = 524288 \<and>
       cfg_RateLimitPerMinute (Load (env(''RATE_LIMIT_PER_MINUTE'' := v))) = 60 \<and>
       cfg_DailyTokenQuota (Load (env(''DAILY_TOKEN_QUOTA'' := v))) = 100000)"
  by (simp add: Load_def getEnvInt_itoa [OF assms] getEnvInt_bad)

lemma limits_read_back_witness:
  "cfg_MaxBodyBytes (Load ((\<lambda>_. [])(''GATEWAY_MAX_BODY_BYTES'' := itoa 1024))) = 1024 \<and>
   cfg_WindowSize (Load ((\<lambda>_. [])(''GATEWAY_WINDOW_SIZE'' := ''many''))) = 512"
  using limits_read_back [of 1024 "\<lambda>_. []" "''many''"] by (simp add: int64_ok_def parse_int_def is_digit_def)

end
