(* ===== verification/Provider_Factory.thy ===== *)
theory Provider_Factory
  imports Provider Gateway_Config
begin

text \<open>
  The choice of the backend, \<open>internal/provider/factory.go\<close>, and the interface \<open>Adapter\<close> of
  \<open>provider.go\<close> over the two adapters.
\<close>

subsection \<open>The interface\<close>

datatype adapter = Mock mock_adapter | OpenAICompat oai_adapter

definition Adapter_Generate ::
  "http_client \<Rightarrow> adapter \<Rightarrow> string \<Rightarrow> 'e provider_error + generate_result" where
  "Adapter_Generate http a prompt =
     (case a of Mock m \<Rightarrow> mock_Generate http m prompt | OpenAICompat q \<Rightarrow> oai_Generate http q prompt)"

definition Adapter_StreamTo ::
  "http_client \<Rightarrow> adapter \<Rightarrow> string \<Rightarrow> ('w, 'e) writer \<Rightarrow> 'w \<Rightarrow> 'w \<times> 'e provider_error option" where
  "Adapter_StreamTo http a prompt wr dst =
     (case a of Mock m \<Rightarrow> mock_StreamTo http m prompt wr dst | OpenAICompat q \<Rightarrow> oai_StreamTo http q prompt wr dst)"

definition adapter_chunks :: "http_client \<Rightarrow> adapter \<Rightarrow> string \<Rightarrow> bytes list" where
  "adapter_chunks http a prompt = fst (Adapter_StreamTo http a prompt record_write [])"

interpretation adapter: chunk_source "Adapter_StreamTo http a" "adapter_chunks http a" for http a
proof
  fix prompt wr w
  show "\<exists>n. fst (Adapter_StreamTo http a prompt wr w) = write_all wr w (take n (adapter_chunks http a prompt)) \<and>
      (snd (Adapter_StreamTo http a prompt wr w) = None \<longrightarrow> length (adapter_chunks http a prompt) \<le> n)"
  proof (cases a)
    case (Mock m)
    with mock.writes_chunks [of http m prompt wr w] show ?thesis
      by (simp add: Adapter_StreamTo_def adapter_chunks_def mock_chunks_def)
  next
    case (OpenAICompat q)
    with oai.writes_chunks [of http q prompt wr w] show ?thesis
      by (simp add: Adapter_StreamTo_def adapter_chunks_def oai_chunks_def)
  qed
qed

subsection \<open>The factory\<close>

datatype factory_error = BaseURLRequired | APIKeyRequired string | UnknownProvider string

definition providerDefaults :: "(string \<times> string \<times> string) list" where
  "providerDefaults =
     [(''groq'', ''https://api.groq.com/openai/v1'', ''openai/gpt-oss-20b''),
      (''gemini'', ''https://generativelanguage.googleapis.com/v1beta/openai/'', ''gemini-2.0-flash''),
      (''openai'', ''https://api.openai.com/v1'', ''gpt-4o-mini'')]"

definition provider_New :: "unicode_tables \<Rightarrow> config \<Rightarrow> factory_error + adapter" where
  "provider_New u cfg =
     (let p = to_lower u (trim_space (cfg_LLMProvider cfg))
      in if p = [] \<or> p = ''mock'' then Inr (Mock \<lparr>ma_base_url = cfg_MockLLMAddr cfg\<rparr>)
         else if p = ''custom'' then
           (if cfg_LLMBaseURL cfg = [] then Inl BaseURLRequired
            else if cfg_LLMAPIKey cfg = [] then Inl (APIKeyRequired ''custom'')
            else
              (let model = (if cfg_LLMModel cfg = [] then ''default'' else cfg_LLMModel cfg)
               in Inr (OpenAICompat (NewOpenAICompatAdapter (cfg_LLMBaseURL cfg) (cfg_LLMAPIKey cfg) model))))
         else
           (case map_of providerDefaults p of
              None \<Rightarrow> Inl (UnknownProvider p)
            | Some (default_url, default_model) \<Rightarrow>
                if cfg_LLMAPIKey cfg = [] then Inl (APIKeyRequired p)
                else
                  (let base_url = (if cfg_LLMBaseURL cfg = [] then default_url else cfg_LLMBaseURL cfg);
                       model = (if cfg_LLMModel cfg = [] then default_model else cfg_LLMModel cfg)
                   in Inr (OpenAICompat (NewOpenAICompatAdapter base_url (cfg_LLMAPIKey cfg) model)))))"

lemma trim_slashes_end [simp]: "trim_slashes s \<noteq> [] \<Longrightarrow> last (trim_slashes s) \<noteq> CHR ''/''"
proof -
  assume "trim_slashes s \<noteq> []"
  then have "dropWhile (\<lambda>c. c = CHR ''/'') (rev s) \<noteq> []" by (simp add: trim_slashes_def)
  from hd_dropWhile [OF this] this show ?thesis by (simp add: trim_slashes_def last_rev)
qed

subsection \<open>Properties\<close>

text \<open>
  A cloud backend is never contacted half configured.  When the factory returns the
  OpenAI-compatible adapter, it carries the configured key, which is not empty, a model
  name, and a base URL without a final slash, so that the path appended to it is well formed.
\<close>

theorem cloud_adapter_complete:
  assumes "provider_New u cfg = Inr (OpenAICompat a)"
  shows "oa_api_key a = cfg_LLMAPIKey cfg \<and> oa_api_key a \<noteq> [] \<and> oa_model a \<noteq> [] \<and>
    (oa_base_url a = [] \<or> last (oa_base_url a) \<noteq> CHR ''/'')"
proof -
  have models: "map_of providerDefaults p = Some (url, m) \<Longrightarrow> m \<noteq> []" for p url m
    by (auto simp: providerDefaults_def split: if_split_asm)
  from assms show ?thesis
    using models
    by (auto simp: provider_New_def NewOpenAICompatAdapter_def Let_def
        split: if_split_asm option.split_asm prod.split_asm)
qed

definition groq_config :: config where
  "groq_config = Load ((\<lambda>_. [])(''LLM_PROVIDER'' := '' Groq '', ''LLM_API_KEY'' := ''gsk''))"

lemma groq_adapter:
  "provider_New u groq_config = Inr (OpenAICompat
     (NewOpenAICompatAdapter ''https://api.groq.com/openai/v1'' ''gsk'' ''openai/gpt-oss-20b''))"
proof -
  have "cfg_LLMProvider groq_config = '' Groq ''" "cfg_LLMAPIKey groq_config = ''gsk''"
    "cfg_LLMModel groq_config = []" "cfg_LLMBaseURL groq_config = []"
    by (simp_all add: groq_config_def Load_def getEnv_def)
  moreover have "trim_space '' Groq '' = ''Groq''" "is_ascii ''Groq''" "map lower_byte ''Groq'' = ''groq''"
    by code_simp+
  ultimately show ?thesis by (simp add: provider_New_def providerDefaults_def Let_def)
qed

lemma cloud_adapter_complete_witness:
  "oa_api_key (NewOpenAICompatAdapter ''https://api.groq.com/openai/v1'' ''gsk'' ''openai/gpt-oss-20b'') = ''gsk''"
  using cloud_adapter_complete [OF groq_adapter] by (simp add: groq_config_def Load_def getEnv_def)

end
