(* ===== verification/Tenant_Auth.thy ===== *)
theory Tenant_Auth
  imports Go_Text
begin

text \<open>
  API keys, \<open>internal/auth/auth.go\<close>: the store of tenants, \<open>Authenticate\<close>, and the tenant
  in the request context.  A Go map is a HOL map; the context value under the unexported
  key type is an optional field that nothing else can set.
\<close>

subsection \<open>The store\<close>

record tenant =
  t_id :: string
  t_name :: string

definition zero_tenant :: tenant where
  "zero_tenant = \<lparr>t_id = [], t_name = []\<rparr>"

datatype auth_error = ErrUnauthorized

type_synonym store = "string \<rightharpoonup> tenant"

definition default_keys :: "(string \<times> tenant) list" where
  "default_keys =
     [(''key-acme-1234'', \<lparr>t_id = ''acme-corp'', t_name = ''Acme Corp''\<rparr>),
      (''key-beta-5678'', \<lparr>t_id = ''beta-inc'', t_name = ''Beta Inc''\<rparr>),
      (''key-dev-local'', \<lparr>t_id = ''dev'', t_name = ''Local Dev''\<rparr>)]"

definition DefaultStore :: store where
  "DefaultStore = map_of default_keys"

definition Authenticate :: "store \<Rightarrow> string \<Rightarrow> auth_error + tenant" where
  "Authenticate keys auth_header =
     (if auth_header = [] then Inl ErrUnauthorized
      else if \<not> has_prefix auth_header ''Bearer '' then Inl ErrUnauthorized
      else
        (let key = trim_space (drop (length ''Bearer '') auth_header)
         in if key = [] then Inl ErrUnauthorized
            else case keys key of
                   None \<Rightarrow> Inl ErrUnauthorized
                 | Some t \<Rightarrow> Inr t))"

subsection \<open>The context\<close>

record request_ctx =
  ctx_request_id :: "string option"
  ctx_tenant :: "tenant option"

definition WithTenant :: "request_ctx \<Rightarrow> tenant \<Rightarrow> request_ctx" where
  "WithTenant ctx t = ctx\<lparr>ctx_tenant := Some t\<rparr>"

definition TenantFromCtx :: "request_ctx \<Rightarrow> tenant \<times> bool" where
  "TenantFromCtx ctx = (case ctx_tenant ctx of Some t \<Rightarrow> (t, True) | None \<Rightarrow> (zero_tenant, False))"

lemma TenantFromCtx_WithTenant [simp]: "TenantFromCtx (WithTenant ctx t) = (t, True)"
  by (simp add: TenantFromCtx_def WithTenant_def)

subsection \<open>Properties\<close>

lemma Authenticate_Inr:
  "Authenticate keys h = Inr t \<longleftrightarrow>
   (\<exists>k. h = ''Bearer '' @ k \<and> trim_space k \<noteq> [] \<and> keys (trim_space k) = Some t)"
proof
  assume a: "Authenticate keys h = Inr t"
  then have "has_prefix h ''Bearer ''"
    by (auto simp: Authenticate_def Let_def split: if_split_asm)
  then obtain k where h: "h = ''Bearer '' @ k" by (auto simp: has_prefix_iff)
  with a show "\<exists>k. h = ''Bearer '' @ k \<and> trim_space k \<noteq> [] \<and> keys (trim_space k) = Some t"
    by (auto simp: Authenticate_def Let_def split: if_split_asm option.split_asm)
next
  assume "\<exists>k. h = ''Bearer '' @ k \<and> trim_space k \<noteq> [] \<and> keys (trim_space k) = Some t"
  then show "Authenticate keys h = Inr t"
    by (auto simp: Authenticate_def has_prefix_def)
qed


end
