(* ===== verification/Rate_Limit.thy ===== *)
theory Rate_Limit
  imports Go_Float64 Go_Strconv "HOL-Library.AList"
begin

text \<open>
  Rate limiter and token quota, \<open>internal/ratelimit/limiter.go\<close> and \<open>quota.go\<close>.  Redis is
  outside the repository: its commands are the fields of \<open>redis_ops\<close>, and the locale
  \<open>redis\<close> states what their documentation promises, over two views of the store (the
  sorted sets and the counters with their expiry).  An in-memory store shows that the
  promises can be kept.  The Lua script is translated with Lua's numbers, which are
  doubles, and Lua's \<open>tostring\<close>, which prints fourteen significant digits.
\<close>

subsection \<open>Redis\<close>

datatype redis_reply = RNil | RInt int | RError string

record 's redis_ops =
  zremrangebyscore :: "'s \<Rightarrow> string \<Rightarrow> rat \<Rightarrow> 's"
  zcard :: "'s \<Rightarrow> string \<Rightarrow> nat"
  zadd :: "'s \<Rightarrow> string \<Rightarrow> rat \<Rightarrow> string \<Rightarrow> 's"
  expire :: "'s \<Rightarrow> string \<Rightarrow> int \<Rightarrow> 's"
  get_int :: "'s \<Rightarrow> string \<Rightarrow> redis_reply"
  incrby :: "'s \<Rightarrow> string \<Rightarrow> int \<Rightarrow> 's \<times> redis_reply"

text \<open>
  \<open>ZREMRANGEBYSCORE key -inf m\<close> removes the members with a score up to \<open>m\<close>; \<open>ZADD\<close> sets
  the score of a member; \<open>INCRBY\<close> counts a missing key as zero and fails, without effect,
  when the sum leaves the 64-bit range.
\<close>

definition counter_val :: "int option \<Rightarrow> int" where
  "counter_val c = (case c of None \<Rightarrow> 0 | Some v \<Rightarrow> v)"

locale redis =
  fixes ops :: "'s redis_ops"
    and zset :: "'s \<Rightarrow> string \<Rightarrow> string \<rightharpoonup> rat"
    and counter :: "'s \<Rightarrow> string \<rightharpoonup> int"
    and ttl :: "'s \<Rightarrow> string \<rightharpoonup> int"
  assumes zset_finite: "finite (dom (zset s k))"
    and zrem: "zset (zremrangebyscore ops s k m) =
      (zset s)(k := zset s k |` {x. \<exists>v. zset s k x = Some v \<and> m < v})"
    and zcard: "zcard ops s k = card (dom (zset s k))"
    and zadd: "zset (zadd ops s k v x) = (zset s)(k := (zset s k)(x \<mapsto> v))"
    and expire: "zset (expire ops s k t) = zset s" "counter (expire ops s k t) = counter s"
      "ttl (expire ops s k t) = (ttl s)(k \<mapsto> t)"
    and get: "get_int ops s k = (case counter s k of None \<Rightarrow> RNil | Some v \<Rightarrow> RInt v)"
    and incrby_ok: "int64_ok (counter_val (counter s k) + n) \<Longrightarrow>
      \<exists>s'. incrby ops s k n = (s', RInt (counter_val (counter s k) + n)) \<and>
        counter s' = (counter s)(k \<mapsto> counter_val (counter s k) + n) \<and> ttl s' = ttl s \<and> zset s' = zset s"
    and incrby_overflow: "\<not> int64_ok (counter_val (counter s k) + n) \<Longrightarrow>
      \<exists>e. incrby ops s k n = (s, RError e)"

text \<open>What can go wrong between the gateway and Redis: the command may have run or not.\<close>

datatype link = LinkUp | LinkLost string bool

subsection \<open>Lua numbers\<close>

text \<open>\<open>tonumber\<close> of the decimal text of an integer.\<close>

definition lua_number :: "int \<Rightarrow> rat" where
  "lua_number n = rnd (of_int n)"

function decimal :: "int \<Rightarrow> string" where
  "decimal n = (if n < 10 then [char_of (48 + n)] else decimal (n div 10) @ [char_of (48 + n mod 10)])"
  by pat_completeness auto
termination
  by (relation "measure nat") auto

declare decimal.simps [simp del]

definition strip_zeros :: "string \<Rightarrow> string" where
  "strip_zeros s = rev (dropWhile (\<lambda>c. c = CHR ''0'') (rev s))"

text \<open>\<open>tostring\<close> of an integral number: the C format \<open>%.14g\<close>.\<close>

definition format_g14 :: "int \<Rightarrow> string" where
  "format_g14 n =
     (if n < 100000000000000 then decimal n
      else
        (let e = length (decimal n) - 14;
             q = rhe_div n (10 ^ e);
             (q, e) = (if q = 100000000000000 then (10000000000000, e + 1) else (q, e));
             digits = strip_zeros (decimal q);
             ex = decimal (int e + 13)
         in take 1 digits @ (if length digits = 1 then [] else ''.'' @ drop 1 digits) @ ''e+'' @ ex))"

definition lua_tostring :: "rat \<Rightarrow> string" where
  "lua_tostring x = (if x < 0 then ''-'' @ format_g14 \<lfloor>- x\<rfloor> else format_g14 \<lfloor>x\<rfloor>)"

subsection \<open>The limiter\<close>

record limiter =
  lim_limit :: int
  lim_window :: int

text \<open>The script.  It answers \<open>-1\<close> when the limit is reached, else the new cardinality.\<close>

definition allow_script ::
  "'s redis_ops \<Rightarrow> string \<Rightarrow> int \<Rightarrow> int \<Rightarrow> int \<Rightarrow> int \<Rightarrow> 's \<Rightarrow> 's \<times> int" where
  "allow_script ops key window_start now_nano limit ttl_secs s =
     (let wstart = lua_number window_start;
          now = lua_number now_nano;
          s1 = zremrangebyscore ops s key wstart;
          count = zcard ops s1 key
      in if lua_number limit \<le> of_nat count then (s1, - 1)
         else
           (let s2 = zadd ops s1 key now (lua_tostring now);
                s3 = expire ops s2 key ttl_secs
            in (s3, int (zcard ops s3 key))))"

definition limiter_key :: "string \<Rightarrow> string" where
  "limiter_key tenant_id = ''ratelimit:'' @ tenant_id"

text \<open>
  \<open>Allow\<close>: the store after it and the error, or whether the request is allowed and how
  many remain.  Times and durations are nanoseconds; \<open>int(window.Seconds())\<close> is the whole
  seconds of a window that is not longer than some months.
\<close>

definition Allow :: "'s redis_ops \<Rightarrow> limiter \<Rightarrow> string \<Rightarrow> int \<Rightarrow> link \<Rightarrow> 's \<Rightarrow> 's \<times> (string + bool \<times> int)" where
  "Allow ops l tenant_id now_nano lk s =
     (let window_start = now_nano - lim_window l;
          ttl_secs = lim_window l div 1000000000 + 1;
          (s', result) =
            allow_script ops (limiter_key tenant_id) window_start now_nano (lim_limit l) ttl_secs s
      in case lk of
           LinkLost e executed \<Rightarrow> (if executed then s' else s, Inl e)
         | LinkUp \<Rightarrow>
             (if result = - 1 then (s', Inr (False, 0)) else (s', Inr (True, lim_limit l - result))))"

subsection \<open>The quota counter\<close>

record quota =
  q_limit :: int

text \<open>\<open>day\<close> is the current UTC date as \<open>time.Format\<close> writes it.\<close>

definition dailyKey :: "string \<Rightarrow> string \<Rightarrow> string" where
  "dailyKey tenant_id day = ''quota:'' @ tenant_id @ '':'' @ day"

definition quota_Check :: "'s redis_ops \<Rightarrow> quota \<Rightarrow> string \<Rightarrow> string \<Rightarrow> link \<Rightarrow> 's \<Rightarrow> string + int \<times> bool" where
  "quota_Check ops q tenant_id day lk s =
     (case lk of
        LinkLost e _ \<Rightarrow> Inl e
      | LinkUp \<Rightarrow>
          (case get_int ops s (dailyKey tenant_id day) of
             RNil \<Rightarrow> Inr (0, True)
           | RError e \<Rightarrow> Inl e
           | RInt val \<Rightarrow> Inr (val, val < q_limit q)))"

definition quota_Add ::
  "'s redis_ops \<Rightarrow> quota \<Rightarrow> string \<Rightarrow> string \<Rightarrow> int \<Rightarrow> link \<Rightarrow> 's \<Rightarrow> 's \<times> (string + int \<times> bool)" where
  "quota_Add ops q tenant_id day n lk s =
     (let key = dailyKey tenant_id day;
          (s', reply) = incrby ops s key n
      in case lk of
           LinkLost e executed \<Rightarrow> (if executed then s' else s, Inl e)
         | LinkUp \<Rightarrow>
             (case reply of
                RInt new_val \<Rightarrow>
                  (if new_val = n then expire ops s' key (25 * 3600) else s',
                   Inr (new_val, new_val \<le> q_limit q))
              | RError e \<Rightarrow> (s', Inl e)
              | RNil \<Rightarrow> (s', Inl ''redis: nil'')))"

definition quota_Total :: "'s redis_ops \<Rightarrow> string \<Rightarrow> string \<Rightarrow> link \<Rightarrow> 's \<Rightarrow> string + int" where
  "quota_Total ops tenant_id day lk s =
     (case lk of
        LinkLost e _ \<Rightarrow> Inl e
      | LinkUp \<Rightarrow>
          (case get_int ops s (dailyKey tenant_id day) of
             RNil \<Rightarrow> Inr 0
           | RError e \<Rightarrow> Inl e
           | RInt val \<Rightarrow> Inr val))"

subsection \<open>A store in memory\<close>

record mem_store =
  m_zsets :: "string \<Rightarrow> (string \<times> rat) list"
  m_counters :: "string \<Rightarrow> int option"
  m_ttl :: "string \<Rightarrow> int option"

definition mem_empty :: mem_store where
  "mem_empty = \<lparr>m_zsets = (\<lambda>_. []), m_counters = (\<lambda>_. None), m_ttl = (\<lambda>_. None)\<rparr>"

definition mem_zset :: "mem_store \<Rightarrow> string \<Rightarrow> string \<rightharpoonup> rat" where
  "mem_zset s k = map_of (m_zsets s k)"

definition mem_redis :: "mem_store redis_ops" where
  "mem_redis =
     \<lparr>zremrangebyscore = (\<lambda>s k m. s\<lparr>m_zsets := (m_zsets s)(k := filter (\<lambda>(x, v). m < v) (AList.clearjunk (m_zsets s k)))\<rparr>),
      zcard = (\<lambda>s k. length (AList.clearjunk (m_zsets s k))),
      zadd = (\<lambda>s k v x. s\<lparr>m_zsets := (m_zsets s)(k := (x, v) # m_zsets s k)\<rparr>),
      expire = (\<lambda>s k t. s\<lparr>m_ttl := (m_ttl s)(k := Some t)\<rparr>),
      get_int = (\<lambda>s k. case m_counters s k of None \<Rightarrow> RNil | Some v \<Rightarrow> RInt v),
      incrby = (\<lambda>s k n.
        let v = counter_val (m_counters s k) + n
        in if int64_ok v then (s\<lparr>m_counters := (m_counters s)(k := Some v)\<rparr>, RInt v)
           else (s, RError ''ERR increment or decrement would overflow''))\<rparr>"

lemma map_of_filter_snd:
  assumes "distinct (map fst xs)"
  shows "map_of (filter (\<lambda>(x, v). P v) xs) = map_of xs |` {x. \<exists>v. map_of xs x = Some v \<and> P v}"
proof
  fix x
  from assms
  have "map_of (filter (\<lambda>(x, v). P v) xs) x = (case map_of xs x of Some v \<Rightarrow> if P v then Some v else None | None \<Rightarrow> None)"
  proof (induction xs)
    case (Cons a xs)
    obtain y v where a: "a = (y, v)" by fastforce
    with Cons.prems have "map_of xs y = None" by (simp add: map_of_eq_None_iff)
    with Cons a show ?case by auto
  qed simp
  then show "map_of (filter (\<lambda>(x, v). P v) xs) x = (map_of xs |` {x. \<exists>v. map_of xs x = Some v \<and> P v}) x"
    by (auto simp: restrict_map_def split: option.split)
qed

interpretation mem: redis mem_redis mem_zset m_counters m_ttl
proof
  fix s :: mem_store and k m
  show "finite (dom (mem_zset s k))" by (simp add: mem_zset_def finite_dom_map_of)
  have "map_of (filter (\<lambda>(x, v). m < v) (AList.clearjunk (m_zsets s k))) =
      map_of (m_zsets s k) |` {x. \<exists>v. map_of (m_zsets s k) x = Some v \<and> m < v}"
    using map_of_filter_snd [OF distinct_clearjunk, of "\<lambda>v. m < v" "m_zsets s k"]
    by (simp add: map_of_clearjunk)
  then show "mem_zset (zremrangebyscore mem_redis s k m) =
      (mem_zset s)(k := mem_zset s k |` {x. \<exists>v. mem_zset s k x = Some v \<and> m < v})"
    by (auto simp: mem_redis_def mem_zset_def fun_eq_iff)
  have "card (set (map fst (AList.clearjunk (m_zsets s k)))) = length (map fst (AList.clearjunk (m_zsets s k)))"
    by (rule distinct_card) (rule distinct_clearjunk)
  moreover have "set (map fst (AList.clearjunk (m_zsets s k))) = dom (map_of (m_zsets s k))"
    using dom_clearjunk [of "m_zsets s k"] dom_map_of_conv_image_fst [of "m_zsets s k"]
    by (simp only: set_map)
  ultimately have "card (dom (map_of (m_zsets s k))) = length (AList.clearjunk (m_zsets s k))"
    by (simp only: length_map)
  then show "zcard mem_redis s k = card (dom (mem_zset s k))"
    by (simp add: mem_redis_def mem_zset_def)
qed (auto simp: mem_redis_def mem_zset_def Let_def fun_eq_iff)

subsection \<open>The script, over the views\<close>

definition live :: "(string \<rightharpoonup> rat) \<Rightarrow> rat \<Rightarrow> string \<rightharpoonup> rat" where
  "live z m = z |` {x. \<exists>v. z x = Some v \<and> m < v}"

lemma live_le: "dom (live z m) \<subseteq> dom z"
  by (auto simp: live_def)

lemma lua_number_small: "\<bar>n\<bar> \<le> 2 ^ 53 \<Longrightarrow> lua_number n = of_int n"
  by (simp add: lua_number_def rnd_of_int)

context redis
begin

lemma zset_rem: "zset (zremrangebyscore ops s k m) = (zset s)(k := live (zset s k) m)"
  by (simp add: zrem live_def)

lemma allow_script_views:
  assumes "allow_script ops k w t lm secs s = (s', r)"
  defines "z \<equiv> live (zset s k) (lua_number w)"
  shows "if lua_number lm \<le> of_nat (card (dom z)) then r = - 1 \<and> zset s' = (zset s)(k := z)
    else zset s' = (zset s)(k := z(lua_tostring (lua_number t) \<mapsto> lua_number t)) \<and>
      r = int (card (dom (z(lua_tostring (lua_number t) \<mapsto> lua_number t))))"
  using assms(1)
  by (auto simp: allow_script_def Let_def zset_rem zcard zadd expire z_def split: if_split_asm)

lemma Allow_views:
  assumes "Allow ops l t now LinkUp s = (s', r)" and "\<bar>lim_limit l\<bar> \<le> 2 ^ 53"
  defines "k \<equiv> limiter_key t"
  defines "z \<equiv> live (zset s k) (lua_number (now - lim_window l))"
    and "m \<equiv> lua_tostring (lua_number now)"
  shows "if lim_limit l \<le> int (card (dom z)) then r = Inr (False, 0) \<and> zset s' = (zset s)(k := z)
    else zset s' = (zset s)(k := z(m \<mapsto> lua_number now)) \<and>
      r = Inr (True, lim_limit l - int (card (insert m (dom z))))"
proof -
  obtain s1 v where sc: "allow_script ops k (now - lim_window l) now (lim_limit l)
      (lim_window l div 1000000000 + 1) s = (s1, v)" by fastforce
  have "lua_number (lim_limit l) \<le> of_nat (card (dom z)) \<longleftrightarrow> lim_limit l \<le> int (card (dom z))"
    using lua_number_small [OF assms(2)] by (simp flip: of_int_le_iff [where ?'a = rat])
  with allow_script_views [OF sc] assms(1) sc show ?thesis
    by (auto simp: Allow_def Let_def k_def z_def m_def split: if_split_asm)
qed

lemma Allow_state: "fst (Allow ops l t now lk s) \<in> {s, fst (Allow ops l t now LinkUp s)}"
  by (auto simp: Allow_def Let_def split: link.split prod.split)

lemma Allow_card:
  assumes lim: "0 \<le> lim_limit l" "lim_limit l \<le> 2 ^ 53"
    and le: "\<And>k. int (card (dom (zset s k))) \<le> lim_limit l"
  shows "int (card (dom (zset (fst (Allow ops l t now lk s)) k))) \<le> lim_limit l"
proof -
  obtain s' r where al: "Allow ops l t now LinkUp s = (s', r)" by fastforce
  let ?z = "live (zset s (limiter_key t)) (lua_number (now - lim_window l))"
  have "card (dom ?z) \<le> card (dom (zset s (limiter_key t)))"
    by (rule card_mono [OF zset_finite live_le])
  then have z: "int (card (dom ?z)) \<le> lim_limit l" using le [of "limiter_key t"] by linarith
  have fin: "finite (dom ?z)" using finite_subset [OF live_le zset_finite] .
  have "int (card (dom (zset s' k))) \<le> lim_limit l" for k
    using Allow_views [OF al] lim z le [of k] card_insert_le_m1 [of "Suc (card (dom ?z))" "dom ?z"] fin
    by (auto split: if_split_asm simp: card_insert_if)
  then show ?thesis using Allow_state [of l t now lk s] al le [of k] by auto
qed

end

subsection \<open>Runs of the limiter\<close>

text \<open>
  The life of the store: requests of any tenant at any time over any link, a key that
  Redis drops when its time to live is over, and commands that do not touch sorted sets.
\<close>

inductive limiter_reach :: "'s redis_ops \<Rightarrow> limiter \<Rightarrow> ('s \<Rightarrow> string \<Rightarrow> string \<rightharpoonup> rat) \<Rightarrow> 's \<Rightarrow> bool"
  for ops l zset where
  start: "zset s = (\<lambda>_. Map.empty) \<Longrightarrow> limiter_reach ops l zset s"
| request: "limiter_reach ops l zset s \<Longrightarrow> limiter_reach ops l zset (fst (Allow ops l t now lk s))"
| expired: "limiter_reach ops l zset s \<Longrightarrow> zset s' = (zset s)(k := Map.empty) \<Longrightarrow> limiter_reach ops l zset s'"
| other: "limiter_reach ops l zset s \<Longrightarrow> zset s' = zset s \<Longrightarrow> limiter_reach ops l zset s'"

definition allowed :: "string + bool \<times> int \<Rightarrow> bool" where
  "allowed r = (case r of Inl _ \<Rightarrow> False | Inr (b, _) \<Rightarrow> b)"

text \<open>The requests of one tenant in the order of their times; the result lists the allowed ones.\<close>

fun allow_run :: "'s redis_ops \<Rightarrow> limiter \<Rightarrow> string \<Rightarrow> 's \<Rightarrow> int list \<Rightarrow> 's \<times> int list" where
  "allow_run ops l t s [] = (s, [])"
| "allow_run ops l t s (now # ts) =
     (let (s', r) = Allow ops l t now LinkUp s;
          (s'', as) = allow_run ops l t s' ts
      in (s'', if allowed r then now # as else as))"

abbreviation member :: "int \<Rightarrow> string" where
  "member now \<equiv> lua_tostring (lua_number now)"

text \<open>Those of the times that are still inside the window that ends at \<open>now\<close>.\<close>

definition in_window :: "limiter \<Rightarrow> int \<Rightarrow> int list \<Rightarrow> int list" where
  "in_window l now ts = filter (\<lambda>x. lua_number (now - lim_window l) < lua_number x) ts"

lemma lua_number_mono: "a \<le> b \<Longrightarrow> lua_number a \<le> lua_number b"
  unfolding lua_number_def by (rule rnd_mono) simp

lemma in_window_mono:
  assumes "now \<le> now'"
  shows "in_window l now' (in_window l now ts) = in_window l now' ts"
proof -
  have "lua_number (now - lim_window l) \<le> lua_number (now' - lim_window l)"
    using assms by (intro lua_number_mono) simp
  then show ?thesis unfolding in_window_def by (induction ts) auto
qed

definition zset_of :: "int list \<Rightarrow> string \<rightharpoonup> rat" where
  "zset_of ts = map_of (map (\<lambda>x. (member x, lua_number x)) ts)"

lemma live_zset_of:
  assumes "distinct (map member ts)"
  shows "live (zset_of ts) (lua_number (now - lim_window l)) = zset_of (in_window l now ts)"
proof -
  have "distinct (map fst (map (\<lambda>x. (member x, lua_number x)) ts))" using assms by (simp add: comp_def)
  from map_of_filter_snd [OF this, of "\<lambda>v. lua_number (now - lim_window l) < v"] show ?thesis
    by (simp add: live_def zset_of_def in_window_def filter_map comp_def)
qed

lemma dom_zset_of: "dom (zset_of ts) = member ` set ts"
  by (simp add: zset_of_def dom_map_of_conv_image_fst image_image)

lemma card_zset_of: "distinct (map member ts) \<Longrightarrow> card (dom (zset_of ts)) = length ts"
  using distinct_card [of "map member ts"] by (simp add: dom_zset_of)

lemma zset_of_append:
  "member now \<notin> member ` set ts \<Longrightarrow> zset_of (ts @ [now]) = (zset_of ts)(member now \<mapsto> lua_number now)"
  by (induction ts) (auto simp: zset_of_def fun_eq_iff)

text \<open>The reference algorithm: a log of the allowed requests, and a look at the window.\<close>

fun sliding_log :: "limiter \<Rightarrow> int list \<Rightarrow> int list \<Rightarrow> int list" where
  "sliding_log l hist [] = []"
| "sliding_log l hist (now # ts) =
     (if int (length (in_window l now hist)) < lim_limit l then now # sliding_log l (hist @ [now]) ts
      else sliding_log l hist ts)"

definition window_count :: "limiter \<Rightarrow> int \<Rightarrow> int list \<Rightarrow> int" where
  "window_count l now ts = int (length (filter (\<lambda>x. x \<le> now) (in_window l now ts)))"

lemma in_window_append: "in_window l now (xs @ ys) = in_window l now xs @ in_window l now ys"
  by (simp add: in_window_def)

lemma window_count_append: "window_count l now (xs @ ys) = window_count l now xs + window_count l now ys"
  by (simp add: window_count_def in_window_append)

lemma sliding_log_bound:
  assumes "0 \<le> lim_limit l" and "sorted (hist @ ts)"
    and "\<And>b. window_count l b hist \<le> lim_limit l"
  shows "window_count l now (hist @ sliding_log l hist ts) \<le> lim_limit l"
  using assms(2-)
proof (induction ts arbitrary: hist)
  case (Cons t0 ts)
  show ?case
  proof (cases "int (length (in_window l t0 hist)) < lim_limit l")
    case True
    have step: "window_count l b (hist @ [t0]) \<le> lim_limit l" for b
    proof (cases "t0 \<le> b")
      case True
      have "length (in_window l b (in_window l t0 hist)) \<le> length (in_window l t0 hist)"
        by (simp only: in_window_def [of l b] length_filter_le)
      then have "length (in_window l b hist) \<le> length (in_window l t0 hist)"
        by (simp only: in_window_mono [OF True])
      then have "window_count l b hist \<le> int (length (in_window l t0 hist))"
        by (simp add: window_count_def) (meson le_trans length_filter_le)
      moreover have "window_count l b [t0] \<le> 1" by (simp add: window_count_def in_window_def)
      ultimately show ?thesis
        using \<open>int (length (in_window l t0 hist)) < lim_limit l\<close> by (simp add: window_count_append)
    next
      case False
      then have "window_count l b [t0] = 0" by (simp add: window_count_def in_window_def)
      with Cons.prems(2) show ?thesis by (simp add: window_count_append)
    qed
    from Cons.IH [of "hist @ [t0]"] step Cons.prems(1) True show ?thesis by simp
  next
    case False
    with Cons.IH [of hist] Cons.prems show ?thesis by (simp add: sorted_append)
  qed
qed (use assms in simp)

context redis
begin

lemma allow_run_log:
  assumes lim: "0 \<le> lim_limit l" "lim_limit l \<le> 2 ^ 53"
  shows "sorted ts \<Longrightarrow> list_all (\<lambda>x. b \<le> x) ts \<Longrightarrow> distinct (map member (hist @ ts)) \<Longrightarrow>
    list_all (\<lambda>x. lua_number (x - lim_window l) < lua_number x) ts \<Longrightarrow>
    zset s (limiter_key t) = zset_of (in_window l b hist) \<Longrightarrow>
    snd (allow_run ops l t s ts) = sliding_log l hist ts"
proof (induction ts arbitrary: b hist s)
  case (Cons t0 ts)
  obtain s1 r where al: "Allow ops l t t0 LinkUp s = (s1, r)" by fastforce
  have le: "b \<le> t0" using Cons.prems by simp
  have dist: "distinct (map member (in_window l b hist))" "distinct (map member (in_window l t0 hist))"
    using Cons.prems(3) by (auto simp: in_window_def intro: distinct_map_filter)
  have z: "live (zset s (limiter_key t)) (lua_number (t0 - lim_window l)) = zset_of (in_window l t0 hist)"
    unfolding Cons.prems(5) live_zset_of [OF dist(1)] in_window_mono [OF le] ..
  have step: "if lim_limit l \<le> int (length (in_window l t0 hist))
      then r = Inr (False, 0) \<and> zset s1 (limiter_key t) = zset_of (in_window l t0 hist)
      else allowed r \<and> zset s1 (limiter_key t) = (zset_of (in_window l t0 hist))(member t0 \<mapsto> lua_number t0)"
    using Allow_views [OF al] lim unfolding z by (auto simp: card_zset_of [OF dist(2)] allowed_def)
  have srt: "sorted ts" "list_all (\<lambda>x. t0 \<le> x) ts" using Cons.prems(1) by (auto simp: list_all_iff)
  show ?case
  proof (cases "lim_limit l \<le> int (length (in_window l t0 hist))")
    case True
    with step have "zset s1 (limiter_key t) = zset_of (in_window l t0 hist)" "\<not> allowed r"
      by (auto simp: allowed_def)
    with Cons.IH [OF srt, of hist s1] Cons.prems(3,4) al True show ?thesis
      by (auto simp: case_prod_beta)
  next
    case False
    have notin: "member t0 \<notin> member ` set (in_window l t0 hist)"
      using Cons.prems(3) by (auto simp: in_window_def)
    have "in_window l t0 (hist @ [t0]) = in_window l t0 hist @ [t0]"
      using Cons.prems(4) by (simp add: in_window_def)
    with False step have "zset s1 (limiter_key t) = zset_of (in_window l t0 (hist @ [t0]))" "allowed r"
      by (auto simp: zset_of_append [OF notin])
    with Cons.IH [OF srt, of "hist @ [t0]" s1] Cons.prems(3,4) al False show ?thesis
      by (auto simp: case_prod_beta)
  qed
qed simp

lemma allow_run_collision:
  assumes lim: "2 \<le> lim_limit l" "lim_limit l \<le> 2 ^ 53"
  shows "list_all (\<lambda>x. member x = m) ts \<Longrightarrow> dom (zset s (limiter_key t)) \<subseteq> {m} \<Longrightarrow>
    snd (allow_run ops l t s ts) = ts"
proof (induction ts arbitrary: s)
  case (Cons t0 ts)
  obtain s1 r where al: "Allow ops l t t0 LinkUp s = (s1, r)" by fastforce
  let ?z = "live (zset s (limiter_key t)) (lua_number (t0 - lim_window l))"
  have sub: "dom ?z \<subseteq> {m}" using live_le Cons.prems(2) by blast
  then have "card (dom ?z) \<le> 1" using card_mono [OF _ sub] by simp
  then have "\<not> lim_limit l \<le> int (card (dom ?z))" using lim by linarith
  with Allow_views [OF al] lim Cons.prems(1) sub
  have "allowed r" "dom (zset s1 (limiter_key t)) \<subseteq> {m}" by (auto simp: allowed_def)
  with Cons al show ?case by (simp add: case_prod_beta)
qed simp

end

subsection \<open>The counter over a day\<close>

context redis
begin

lemma quota_Add_ok:
  assumes "int64_ok (counter_val (counter s (dailyKey t d)) + n)"
  shows "\<exists>s'. quota_Add ops q t d n LinkUp s =
      (s', Inr (counter_val (counter s (dailyKey t d)) + n,
                counter_val (counter s (dailyKey t d)) + n \<le> q_limit q)) \<and>
    counter s' = (counter s)(dailyKey t d \<mapsto> counter_val (counter s (dailyKey t d)) + n) \<and>
    ttl s' = (if counter_val (counter s (dailyKey t d)) = 0 then (ttl s)(dailyKey t d \<mapsto> 90000) else ttl s)"
proof -
  obtain s1 where s1: "incrby ops s (dailyKey t d) n = (s1, RInt (counter_val (counter s (dailyKey t d)) + n))"
    "counter s1 = (counter s)(dailyKey t d \<mapsto> counter_val (counter s (dailyKey t d)) + n)" "ttl s1 = ttl s"
    using incrby_ok [OF assms] by blast
  then show ?thesis by (auto simp: quota_Add_def Let_def expire)
qed

lemma quota_Check_val:
  "quota_Check ops q t d LinkUp s =
    (case counter s (dailyKey t d) of None \<Rightarrow> Inr (0, True) | Some v \<Rightarrow> Inr (v, v < q_limit q))"
  by (simp add: quota_Check_def get split: option.split)

lemma quota_Total_val: "quota_Total ops t d LinkUp s = Inr (counter_val (counter s (dailyKey t d)))"
  by (simp add: quota_Total_def get counter_val_def split: option.split)

end

text \<open>
  Requests of one tenant served one after the other on one day: the check lets a request
  through, and after it its tokens are added.
\<close>

fun serve_day :: "'s redis_ops \<Rightarrow> quota \<Rightarrow> string \<Rightarrow> string \<Rightarrow> 's \<Rightarrow> int list \<Rightarrow> 's" where
  "serve_day ops q t d s [] = s"
| "serve_day ops q t d s (n # ns) =
     (case quota_Check ops q t d LinkUp s of
        Inr (_, True) \<Rightarrow> serve_day ops q t d (fst (quota_Add ops q t d n LinkUp s)) ns
      | _ \<Rightarrow> serve_day ops q t d s ns)"

context redis
begin

lemma serve_day_bound:
  assumes "1 \<le> q_limit q" and "q_limit q + m < 2 ^ 63"
  shows "list_all (\<lambda>n. 0 \<le> n \<and> n \<le> m) ns \<Longrightarrow> 0 \<le> counter_val (counter s (dailyKey t d)) \<Longrightarrow>
    counter_val (counter s (dailyKey t d)) < q_limit q + m \<or> counter_val (counter s (dailyKey t d)) = 0 \<Longrightarrow>
    counter_val (counter (serve_day ops q t d s ns) (dailyKey t d)) < q_limit q + max 0 m"
proof (induction ns arbitrary: s)
  case (Cons n ns)
  let ?v = "counter_val (counter s (dailyKey t d))"
  show ?case
  proof (cases "?v < q_limit q")
    case True
    then have ck: "\<exists>v. quota_Check ops q t d LinkUp s = Inr (v, True)"
      by (auto simp: quota_Check_val counter_val_def split: option.split)
    have "int64_ok (?v + n)" using True Cons.prems assms by (simp add: int64_ok_def)
    from quota_Add_ok [OF this, of q] obtain s' where
      "fst (quota_Add ops q t d n LinkUp s) = s'" "counter s' = (counter s)(dailyKey t d \<mapsto> ?v + n)"
      by auto
    with ck Cons.IH [of s'] Cons.prems True show ?thesis by (auto simp: counter_val_def)
  next
    case False
    then have "quota_Check ops q t d LinkUp s = Inr (?v, False)"
      using assms(1) by (cases "counter s (dailyKey t d)") (auto simp: quota_Check_val counter_val_def)
    with Cons show ?thesis by simp
  qed
qed (use assms in auto)

end

subsection \<open>Properties\<close>

text \<open>
  C6: the limiter is a sliding window log.  When the requests of a tenant come in the order
  of their times and no two of them have the same member string, the script admits
  exactly the requests that a log of the admitted ones admits: those that find fewer than
  \<open>limit\<close> of them in the window that ends at the request.
\<close>

theorem limiter_is_sliding_log:
  assumes "redis ops zset counter ttl" and "0 \<le> lim_limit l" and "lim_limit l \<le> 2 ^ 53"
    and "sorted ts" and "distinct (map member ts)"
    and "list_all (\<lambda>x. lua_number (x - lim_window l) < lua_number x) ts"
    and "zset s (limiter_key t) = Map.empty"
  shows "snd (allow_run ops l t s ts) = sliding_log l [] ts"
proof (cases ts)
  case (Cons b bs)
  have "list_all (\<lambda>x. b \<le> x) ts" using assms(4) Cons by (auto simp: list_all_iff)
  then show ?thesis
    using redis.allow_run_log [OF assms(1-4), of b "[]" s t] assms(5-)
    by (simp add: in_window_def zset_of_def)
qed simp

definition sample_times :: "int list" where
  "sample_times = [1700000000000000000, 1700000001000000000, 1700000002000000000]"

definition sample_limiter :: limiter where
  "sample_limiter = \<lparr>lim_limit = 2, lim_window = 60000000000\<rparr>"

lemma sample_times_ok:
  "sorted sample_times" "distinct (map member sample_times)"
  "list_all (\<lambda>x. lua_number (x - lim_window sample_limiter) < lua_number x) sample_times"
  by code_simp+

lemma mem_empty_zset: "mem_zset mem_empty k = Map.empty"
  by (simp add: mem_zset_def mem_empty_def)

lemma limiter_is_sliding_log_witness:
  "snd (allow_run mem_redis sample_limiter ''dev'' mem_empty sample_times) = sliding_log sample_limiter [] sample_times"
  by (rule limiter_is_sliding_log [OF mem.redis_axioms])
    (simp_all add: sample_times_ok mem_empty_zset, simp_all add: sample_limiter_def)



text \<open>
  C28: bursts are undercounted.  Lua prints a time of nineteen digits with fourteen, so
  requests within about a tenth of a millisecond have the same member string, and adding a
  member twice does not raise the cardinality: with a limit of two or more, every request
  of such a burst is admitted, however many there are.
\<close>

theorem burst_undercounted:
  assumes "redis ops zset counter ttl" and "2 \<le> lim_limit l" and "lim_limit l \<le> 2 ^ 53"
    and "list_all (\<lambda>x. member x = m) ts" and "zset s (limiter_key t) = Map.empty"
  shows "snd (allow_run ops l t s ts) = ts"
  using redis.allow_run_collision [OF assms(1-4)] assms(5) by simp

lemma burst_undercounted_witness:
  "snd (allow_run mem_redis sample_limiter ''dev'' mem_empty
     [1700000000000000000, 1700000000000010000, 1700000000000020000, 1700000000000040000]) =
   [1700000000000000000, 1700000000000010000, 1700000000000020000, 1700000000000040000]"
proof (rule burst_undercounted [OF mem.redis_axioms])
  show "list_all (\<lambda>x. member x = ''1.7e+18'')
     [1700000000000000000, 1700000000000010000, 1700000000000020000, 1700000000000040000]"
    by code_simp
qed (simp_all add: sample_limiter_def mem_empty_zset)

text \<open>
  C27: the store never holds more than the limit.  From an empty store on, whatever requests
  come at whatever times, over links that fail before or after the script ran, with keys
  that expire in between, the sorted set of every tenant has at most \<open>limit\<close> members.
\<close>

theorem stored_requests_bounded:
  assumes "redis ops zset counter ttl" and "0 \<le> lim_limit l" and "lim_limit l \<le> 2 ^ 53"
    and "limiter_reach ops l zset s"
  shows "int (card (dom (zset s k))) \<le> lim_limit l"
  using assms(4)
proof (induction arbitrary: k rule: limiter_reach.induct)
  case (request s t now lk)
  then show ?case using redis.Allow_card [OF assms(1-3)] by blast
qed (use assms(2) in auto)

lemma stored_requests_bounded_witness:
  "int (card (dom (mem_zset (fst (Allow mem_redis sample_limiter ''dev'' 1700000000000000000 LinkUp mem_empty))
     (limiter_key ''dev'')))) \<le> lim_limit sample_limiter"
proof (rule stored_requests_bounded [OF mem.redis_axioms])
  have "limiter_reach mem_redis sample_limiter mem_zset mem_empty"
    by (rule limiter_reach.start) (simp add: mem_zset_def mem_empty_def fun_eq_iff)
  then show "limiter_reach mem_redis sample_limiter mem_zset
      (fst (Allow mem_redis sample_limiter ''dev'' 1700000000000000000 LinkUp mem_empty))"
    by (rule limiter_reach.request)
qed (simp_all add: sample_limiter_def)

text \<open>
  The daily quota overshoots by less than one request.  When requests of a tenant are
  served one after the other, each checked before and charged at most \<open>m\<close> tokens after, the
  total of the day stays below the limit plus \<open>m\<close>, however many requests come.
\<close>

theorem quota_overshoot:
  assumes "redis ops zset counter ttl" and "1 \<le> q_limit q" and "q_limit q + m < 2 ^ 63" and "0 \<le> m"
    and "list_all (\<lambda>n. 0 \<le> n \<and> n \<le> m) ns" and "counter s (dailyKey t d) = None"
  shows "counter_val (counter (serve_day ops q t d s ns) (dailyKey t d)) < q_limit q + m"
  using redis.serve_day_bound [OF assms(1-3,5), of s t d] assms(4,6) by (simp add: counter_val_def)

lemma quota_overshoot_witness:
  "counter_val (m_counters (serve_day mem_redis \<lparr>q_limit = 10\<rparr> ''dev'' ''2024-01-01'' mem_empty [7, 7, 7])
     (dailyKey ''dev'' ''2024-01-01'')) < q_limit \<lparr>q_limit = 10\<rparr> + 7"
  by (rule quota_overshoot [OF mem.redis_axioms]) (simp_all add: mem_empty_def)

text \<open>
  The two quota operations disagree at the limit.  \<open>Add\<close> reports the tenant as still
  under the limit when the new total equals it, and \<open>Check\<close>, on the store \<open>Add\<close> leaves,
  reports it as no longer under; below and above the limit they agree.
\<close>

theorem add_and_check_at_limit:
  assumes "redis ops zset counter ttl" and "quota_Add ops q t d n LinkUp s = (s', Inr (v, below))"
    and "int64_ok (counter_val (counter s (dailyKey t d)) + n)"
  shows "quota_Check ops q t d LinkUp s' = Inr (v, below \<and> v \<noteq> q_limit q)"
  using redis.quota_Add_ok [OF assms(1,3), of q] assms(2) redis.quota_Check_val [OF assms(1)]
  by auto

lemma add_and_check_at_limit_witness:
  "quota_Check mem_redis \<lparr>q_limit = 5\<rparr> ''dev'' ''2024-01-01'' LinkUp
     (fst (quota_Add mem_redis \<lparr>q_limit = 5\<rparr> ''dev'' ''2024-01-01'' 5 LinkUp mem_empty)) =
   Inr (5, True \<and> (5::int) \<noteq> q_limit \<lparr>q_limit = 5\<rparr>)"
proof (rule add_and_check_at_limit [OF mem.redis_axioms])
  show "quota_Add mem_redis \<lparr>q_limit = 5\<rparr> ''dev'' ''2024-01-01'' 5 LinkUp mem_empty =
      (fst (quota_Add mem_redis \<lparr>q_limit = 5\<rparr> ''dev'' ''2024-01-01'' 5 LinkUp mem_empty), Inr (5, True))"
    by (simp add: quota_Add_def mem_redis_def mem_empty_def counter_val_def int64_ok_def Let_def)
qed (simp add: int64_ok_def counter_val_def mem_empty_def)

end
