(* ===== verification/Go_Quote.thy ===== *)
theory Go_Quote
  imports Go_Json
begin

text \<open>
  The verb \<open>%q\<close> of \<open>fmt\<close>, \<open>strconv.Quote\<close>: a Go string literal.  The table behind
  \<open>strconv.IsPrint\<close> for runes above 0xFF is a parameter.  A Go literal is not always a JSON
  string: the last lemmas say exactly when it is.
\<close>

subsection \<open>Quoting\<close>

definition is_print :: "(int \<Rightarrow> bool) \<Rightarrow> int \<Rightarrow> bool" where
  "is_print table r =
     (if r \<le> 0xFF then 0x20 \<le> r \<and> r \<le> 0x7E \<or> 0xA1 \<le> r \<and> r \<noteq> 0xAD else table r)"

definition hex2 :: "int \<Rightarrow> bytes" where
  "hex2 n = [hex_digit (n div 16 mod 16), hex_digit (n mod 16)]"

definition quote_rune :: "(int \<Rightarrow> bool) \<Rightarrow> int \<Rightarrow> bytes" where
  "quote_rune table r =
     (if r = 0x22 \<or> r = 0x5C then [CHR 0x5C, char_of r]
      else if is_print table r then encode_rune r
      else if r = 7 then [CHR 0x5C, CHR ''a'']
      else if r = 8 then [CHR 0x5C, CHR ''b'']
      else if r = 12 then [CHR 0x5C, CHR ''f'']
      else if r = 10 then [CHR 0x5C, CHR ''n'']
      else if r = 13 then [CHR 0x5C, CHR ''r'']
      else if r = 9 then [CHR 0x5C, CHR ''t'']
      else if r = 11 then [CHR 0x5C, CHR ''v'']
      else if r < 0x20 \<or> r = 0x7F then [CHR 0x5C, CHR ''x''] @ hex2 r
      else if r < 0x10000 then [CHR 0x5C, CHR ''u''] @ hex4 r
      else [CHR 0x5C, CHR ''U''] @ hex4 (r div 65536) @ hex4 (r mod 65536))"

text \<open>A byte that is no UTF-8 is written as the byte it is.\<close>

function quote_body :: "(int \<Rightarrow> bool) \<Rightarrow> bytes \<Rightarrow> bytes" where
  "quote_body table [] = []"
| "quote_body table (c # cs) =
     (let (r, rest) = decode_rune c cs
      in (if r = RuneError \<and> rest = cs then [CHR 0x5C, CHR ''x''] @ hex2 (byte_val c) else quote_rune table r) @
         quote_body table rest)"
  by pat_completeness auto
termination
  by (relation "measure (\<lambda>(_, s). length s)") (auto simp: le_imp_less_Suc dest!: decode_rune_shorter [OF sym])

definition Quote :: "(int \<Rightarrow> bool) \<Rightarrow> bytes \<Rightarrow> bytes" where
  "Quote table s = [DQUOTE] @ quote_body table s @ [DQUOTE]"

subsection \<open>When a Go literal is a JSON string\<close>

text \<open>
  The runes whose Go escape JSON does not have: the bell, the vertical tab, the escapes
  \<open>\x\<close> and \<open>\U\<close>; and a byte that is no UTF-8.
\<close>

definition json_quotable :: "(int \<Rightarrow> bool) \<Rightarrow> int \<Rightarrow> bool" where
  "json_quotable table r \<longleftrightarrow>
     r = 8 \<or> r = 9 \<or> r = 10 \<or> r = 12 \<or> r = 13 \<or> is_print table r \<or> 0x80 \<le> r \<and> r < 0x10000"

function all_quotable :: "(int \<Rightarrow> bool) \<Rightarrow> bytes \<Rightarrow> bool" where
  "all_quotable table [] = True"
| "all_quotable table (c # cs) =
     (let (r, rest) = decode_rune c cs
      in \<not> (r = RuneError \<and> rest = cs) \<and> json_quotable table r \<and> all_quotable table rest)"
  by pat_completeness auto
termination
  by (relation "measure (\<lambda>(_, s). length s)") (auto simp: le_imp_less_Suc dest!: decode_rune_shorter [OF sym])

lemma json_string_bad_escape:
  assumes "map_of simple_escapes e = None" "e \<noteq> CHR ''u''"
  shows "json_string (CHR 0x5C # e # t) = Malformed"
  using assms by (simp add: json_string.simps(2))

lemma quote_rune_json:
  assumes r: "scalar_rune r"
  shows "json_string (quote_rune table r @ t) =
    (if json_quotable table r then prepend (encode_rune r) (json_string t) else Malformed)"
proof -
  have r0: "0 \<le> r" "r \<le> 0x10FFFF" "\<not> is_surrogate r" using r by (auto simp: scalar_rune_def)
  consider (simple) e where "quote_rune table r = [CHR 0x5C, e]" "map_of simple_escapes e = Some (char_of r)"
      "e \<noteq> CHR ''u''" "encode_rune r = [char_of r]" "json_quotable table r"
    | (plain) "quote_rune table r = encode_rune r" "0x20 \<le> r" "r \<noteq> 0x22" "r \<noteq> 0x5C" "json_quotable table r"
    | (hex) "quote_rune table r = [CHR 0x5C, CHR ''u''] @ hex4 r" "r < 65536" "json_quotable table r"
    | (bad) e t' where "quote_rune table r = CHR 0x5C # e # t'" "map_of simple_escapes e = None"
      "e \<noteq> CHR ''u''" "\<not> json_quotable table r"
  proof (cases "r \<in> {0x22, 0x5C} \<or> r \<in> {8, 12, 10, 13, 9}")
    case True
    have print: "is_print table 34" "is_print table 92" by (simp_all add: is_print_def)
    have ctrl: "\<not> is_print table 8" "\<not> is_print table 12" "\<not> is_print table 10" "\<not> is_print table 13"
      "\<not> is_print table 9" by (simp_all add: is_print_def)
    from True have "\<exists>e. quote_rune table r = [CHR 0x5C, e] \<and> map_of simple_escapes e = Some (char_of r) \<and>
        e \<noteq> CHR ''u'' \<and> encode_rune r = [char_of r] \<and> json_quotable table r"
      unfolding insert_iff empty_iff simple_escapes_def
      by (elim disjE FalseE)
        (simp_all add: quote_rune_def encode_rune_def json_quotable_def char_of_escaped print ctrl)
    then show ?thesis using simple by blast
  next
    case False
    show ?thesis
    proof (cases "is_print table r")
      case True
      then have "0x20 \<le> r" by (auto simp: is_print_def split: if_split_asm)
      with True False show ?thesis by (intro plain) (simp_all add: quote_rune_def json_quotable_def)
    next
      case np: False
      show ?thesis
      proof (cases "0x80 \<le> r \<and> r < 0x10000")
        case True
        with np False show ?thesis by (intro hex) (simp_all add: quote_rune_def json_quotable_def)
      next
        case out: False
        then have nq: "\<not> json_quotable table r" using False np by (auto simp: json_quotable_def)
        have ascii: "r < 0x10000 \<Longrightarrow> r < 0x20 \<or> r = 0x7F" using np out r0(1) by (auto simp: is_print_def)
        have "\<exists>e t'. quote_rune table r = CHR 0x5C # e # t' \<and> (e = CHR ''a'' \<or> e = CHR ''v'' \<or> e = CHR ''x'' \<or> e = CHR ''U'')"
          using False np out ascii by (simp add: quote_rune_def)
        then show ?thesis using bad [OF _ _ _ nq] by (auto simp: simple_escapes_def)
      qed
    qed
  qed
  then show ?thesis
  proof cases
    case simple
    then show ?thesis using json_string_simple [OF simple(2,3), of t] by (simp only: append_Cons append_Nil if_True)
  next
    case plain
    then show ?thesis using r json_string_plain [of r t] by simp
  next
    case hex
    then show ?thesis using r0 json_string_hex [of r t] by simp
  next
    case bad
    then show ?thesis using json_string_bad_escape by simp
  qed
qed

lemma quote_body_json:
  "json_string (quote_body table s @ DQUOTE # t) =
     (if all_quotable table s then Parsed (valid_text s) t else Malformed)"
proof (induction table s rule: all_quotable.induct)
  case (1 table)
  show ?case by (simp add: json_string.simps(2) valid_text_def)
next
  case (2 table c cs)
  obtain r rest where d: "decode_rune c cs = (r, rest)" by (cases "decode_rune c cs") auto
  show ?case
  proof (cases "r = RuneError \<and> rest = cs")
    case True
    then show ?thesis using d json_string_bad_escape [of "CHR ''x''"] by (simp add: simple_escapes_def)
  next
    case False
    have "json_string (quote_body table (c # cs) @ DQUOTE # t) =
        json_string (quote_rune table r @ quote_body table rest @ DQUOTE # t)" using d False by auto
    also have "\<dots> = (if all_quotable table (c # cs) then Parsed (valid_text (c # cs)) t else Malformed)"
    proof (cases "json_quotable table r")
      case True
      with 2 [OF d [symmetric] refl] d False show ?thesis
        unfolding quote_rune_json [OF decode_rune_scalar [OF d]] by (auto simp: valid_text_def)
    next
      case nq: False
      then show ?thesis unfolding quote_rune_json [OF decode_rune_scalar [OF d]] using d by auto
    qed
    finally show ?thesis .
  qed
qed

subsection \<open>Runes and new lines\<close>

lemma NL_byte: "c = NL \<longleftrightarrow> byte_val c = 10"
proof -
  have "byte_val NL = 10" by code_simp
  moreover have "byte_val c = byte_val NL \<Longrightarrow> c = NL" by (simp only: byte_val_def of_char_eq_iff)
  ultimately show ?thesis by metis
qed

lemma encode_rune_line:
  assumes "scalar_rune r" "0x20 \<le> r"
  shows "NL \<notin> set (encode_rune r)"
proof -
  have r: "0 \<le> r" "r \<le> 0x10FFFF" using assms by (auto simp: scalar_rune_def)
  have hi: "NL \<noteq> char_of n" if "0x20 \<le> n" "n < 256" for n :: int
    using that NL_byte [of "char_of n"] by auto
  obtain h m l where eq: "r = h * 4096 + m * 64 + l" "0 \<le> m" "m \<le> 63" "0 \<le> l" "l \<le> 63"
    "r div 4096 = h" "r div 64 mod 64 = m" "r mod 64 = l" using split64 [of r] .
  have d64: "r div 64 < 4 \<or> 0x800 \<le> r \<or> r div 64 < 32" "0 \<le> r div 64" using r by presburger+
  consider "r < 0x80" | "0x80 \<le> r" "r < 0x800" | "0x800 \<le> r" "r < 0x10000" | "0x10000 \<le> r" by linarith
  then show ?thesis
  proof cases
    case 1
    with assms(2) hi [of r] show ?thesis by (simp add: encode_rune_def)
  next
    case 2
    then have "r div 64 < 32" by presburger
    with 2 d64(2) eq(4,5,8) hi [of "0xC0 + r div 64"] hi [of "0x80 + l"] show ?thesis by (simp add: encode_rune_def eq(8))
  next
    case 3
    have "0 \<le> h" "h < 16" using 3 eq by linarith+
    with 3 eq(2-5) hi [of "0xE0 + h"] hi [of "0x80 + m"] hi [of "0x80 + l"] hi [of 239] hi [of 191] hi [of 189] show ?thesis
      by (auto simp: encode_rune_def eq(6-8))
  next
    case 4
    have q: "r div 262144 = h div 64" "0 \<le> h div 64" "h div 64 < 16"
      using zdiv_zmult2_eq [of 64 r 4096] eq(6) r by (auto simp: div_less_iff_less_mult)
    then have "0 \<le> h mod 64" "h mod 64 < 64" by simp_all
    with 4 q eq(2-5) hi [of "0xF0 + h div 64"] hi [of "0x80 + h mod 64"] hi [of "0x80 + m"] hi [of "0x80 + l"]
      hi [of 239] hi [of 191] hi [of 189] show ?thesis
      by (auto simp: encode_rune_def eq(6-8) q(1))
  qed
qed

lemma hex_digit_line: "0 \<le> n \<Longrightarrow> n < 16 \<Longrightarrow> NL \<noteq> hex_digit n"
  using NL_byte [of "hex_digit n"] by (auto simp: hex_digit_def split: if_splits)

lemma hex_line: "0 \<le> r \<Longrightarrow> r < 65536 \<Longrightarrow> NL \<notin> set (hex4 r)" "0 \<le> b \<Longrightarrow> b < 256 \<Longrightarrow> NL \<notin> set (hex2 b)"
  by (simp_all add: hex4_def hex2_def hex_digit_line div_less_iff_less_mult pos_imp_zdiv_nonneg_iff)

subsection \<open>Text that a Go literal shows as it is\<close>

text \<open>Printable ASCII without quotes and backslashes.\<close>

definition plain_text :: "bytes \<Rightarrow> bool" where
  "plain_text s \<longleftrightarrow>
     list_all (\<lambda>c. 0x20 \<le> byte_val c \<and> byte_val c < 0x7F \<and> byte_val c \<noteq> 0x22 \<and> byte_val c \<noteq> 0x5C) s"

lemma plain_text_append: "plain_text (a @ b) \<longleftrightarrow> plain_text a \<and> plain_text b"
  by (simp add: plain_text_def)

lemma quote_body_plain: "plain_text s \<Longrightarrow> quote_body table s = s"
proof (induction s)
  case (Cons c s)
  then have c: "0x20 \<le> byte_val c" "byte_val c < 0x7F" "byte_val c \<noteq> 0x22" "byte_val c \<noteq> 0x5C"
    by (simp_all add: plain_text_def)
  have "char_of (byte_val c) = c" by (simp add: byte_val_def)
  with c have "quote_rune table (byte_val c) = [c]" by (simp add: quote_rune_def is_print_def encode_rune_def)
  with c Cons show ?case by (simp add: plain_text_def)
qed simp

end
