(* ===== verification/Gateway.thy ===== *)
theory Gateway
  imports Policy_Watcher Input_Scanner Provider_Factory Tenant_Auth Rate_Limit Go_Quote
begin

text \<open>
  The HTTP server, \<open>internal/gateway/gateway.go\<close>: the middleware, the two handlers, the
  writer that feeds a stream through the window, and the policy evaluation.  A handler is a
  function on \<open>hstate\<close>: the response so far, the status its wrapper recorded, the log and
  metric events, the Redis store, and the calls made to the model backend.  What a request
  meets outside (links to Redis, clock, backend) is in the record \<open>env\<close>.
\<close>

subsection \<open>The response writer\<close>

text \<open>
  \<open>http.ResponseWriter\<close>: the header map, the status line with the headers once they are
  sent, the body, and how many more bytes the client's connection accepts (\<open>None\<close> when it
  does not fail).  The first \<open>WriteHeader\<close> counts; a \<open>Write\<close> without one sends 200.
\<close>

record response =
  rs_headers :: "string \<Rightarrow> string option"
  rs_sent :: "(int \<times> (string \<Rightarrow> string option)) option"
  rs_body :: bytes
  rs_conn :: "nat option"

definition Header_Set :: "string \<Rightarrow> string \<Rightarrow> response \<Rightarrow> response" where
  "Header_Set k v rs = rs\<lparr>rs_headers := (rs_headers rs)(k := Some v)\<rparr>"

definition http_WriteHeader :: "int \<Rightarrow> response \<Rightarrow> response" where
  "http_WriteHeader status rs =
     (case rs_sent rs of
        None \<Rightarrow> rs\<lparr>rs_sent := Some (status, rs_headers rs)\<rparr>
      | Some _ \<Rightarrow> rs)"

definition http_Write :: "(response, string) writer" where
  "http_Write rs p =
     (let rs = http_WriteHeader 200 rs
      in case rs_conn rs of
           None \<Rightarrow> (rs\<lparr>rs_body := rs_body rs @ p\<rparr>, length p, None)
         | Some q \<Rightarrow>
             if length p \<le> q
             then (rs\<lparr>rs_body := rs_body rs @ p, rs_conn := Some (q - length p)\<rparr>, length p, None)
             else (rs\<lparr>rs_body := rs_body rs @ take q p, rs_conn := Some 0\<rparr>, q, Some ''broken pipe''))"

lemma http_WriteHeader_sel [simp]:
  "rs_body (http_WriteHeader c rs) = rs_body rs" "rs_conn (http_WriteHeader c rs) = rs_conn rs"
  by (simp_all add: http_WriteHeader_def split: option.split)

interpretation http: io_writer http_Write rs_body
  by unfold_locales (auto simp: http_Write_def Let_def split: option.split_asm if_split_asm)

subsection \<open>State and environment of a request\<close>

datatype model_call = Generate string | StreamTo string

text \<open>
  \<open>h_status\<close> is the field of \<open>responseWriter\<close>: the last status given to its \<open>WriteHeader\<close>.
\<close>

record 's hstate =
  h_resp :: response
  h_status :: int
  h_events :: "event list"
  h_store :: 's
  h_calls :: "model_call list"

definition emit :: "event list \<Rightarrow> 's hstate \<Rightarrow> 's hstate" where
  "emit es h = h\<lparr>h_events := h_events h @ es\<rparr>"

definition hw_Write :: "('s hstate, string) writer" where
  "hw_Write h p = (let (rs, n, err) = http_Write (h_resp h) p in (h\<lparr>h_resp := rs\<rparr>, n, err))"

abbreviation h_body :: "'s hstate \<Rightarrow> bytes" where
  "h_body h \<equiv> rs_body (h_resp h)"

interpretation handler: io_writer hw_Write h_body
  by unfold_locales
    (auto simp: hw_Write_def split: prod.split_asm dest: http.writes http.short_write)

definition rw_WriteHeader :: "int \<Rightarrow> 's hstate \<Rightarrow> 's hstate" where
  "rw_WriteHeader status h = h\<lparr>h_status := status, h_resp := http_WriteHeader status (h_resp h)\<rparr>"

definition set_header :: "string \<Rightarrow> string \<Rightarrow> 's hstate \<Rightarrow> 's hstate" where
  "set_header k v h = h\<lparr>h_resp := Header_Set k v (h_resp h)\<rparr>"

record server =
  sv_cfg :: config
  sv_level :: level
  sv_auth :: store
  sv_limiter :: "limiter option"
  sv_quota :: "quota option"

datatype ww_error = StreamAborted | DstError string

text \<open>
  The writer of a stream.  Of its time stamps only whether a first chunk was sent is
  kept; the durations go to metrics whose values are not modelled.
\<close>

record 's windowWriter =
  ww_win :: window
  ww_dst :: "'s hstate"
  ww_aborted :: bool
  ww_first_sent :: bool
  ww_chunks :: nat

record 's env =
  e_req_id :: string
  e_ops :: "'s redis_ops"
  e_now :: int
  e_day_check :: string
  e_day_total :: string
  e_day_add :: string
  e_link_allow :: link
  e_link_check :: link
  e_link_total :: link
  e_link_add :: link
  e_printable :: "int \<Rightarrow> bool"
  e_log2 :: "rat \<Rightarrow> rat"
  e_map_order :: "freq_map \<Rightarrow> freq_map"
  e_bundle :: "policy_bundle option"
  e_generate :: "string \<Rightarrow> ww_error provider_error + generate_result"
  e_stream :: "string \<Rightarrow> ('s windowWriter, ww_error) writer \<Rightarrow> 's windowWriter \<Rightarrow>
                 's windowWriter \<times> ww_error provider_error option"
  e_error_text :: "ww_error provider_error \<Rightarrow> string"
  e_other_routes :: "string \<Rightarrow> 's hstate \<Rightarrow> 's hstate"

text \<open>A request: \<open>ContentLength\<close> is \<open>-1\<close> when the client does not say.\<close>

record request =
  rq_method :: string
  rq_path :: string
  rq_authorization :: string
  rq_content_length :: int
  rq_body :: bytes

definition log_h :: "server \<Rightarrow> level \<Rightarrow> string \<Rightarrow> 's hstate \<Rightarrow> 's hstate" where
  "log_h sv lv msg h = emit (log_event (sv_level sv) lv msg) h"

definition writeJSON :: "int \<Rightarrow> json \<Rightarrow> 's hstate \<Rightarrow> 's hstate" where
  "writeJSON status v h =
     fst (hw_Write (rw_WriteHeader status (set_header ''Content-Type'' ''application/json'' h))
           (json_encode v @ [NL]))"

definition writeError :: "int \<Rightarrow> string \<Rightarrow> string \<Rightarrow> 's hstate \<Rightarrow> 's hstate" where
  "writeError status code req_id h =
     writeJSON status (JObject [(''error'', JString code), (''request_id'', JString req_id)]) h"

definition requestIDFromCtx :: "request_ctx \<Rightarrow> string" where
  "requestIDFromCtx ctx = (case ctx_request_id ctx of Some i \<Rightarrow> i | None \<Rightarrow> ''unknown'')"

subsection \<open>The writer of a stream\<close>

text \<open>
  \<open>Write\<close> of \<open>windowWriter\<close>.  \<open>can_flush\<close> is whether the destination is an \<open>http.Flusher\<close>;
  a flush does not change the response as modelled.
\<close>

definition ww_Write :: "server \<Rightarrow> string \<Rightarrow> ('s windowWriter, ww_error) writer" where
  "ww_Write sv tenant_id ww p =
     (if ww_aborted ww then (ww, 0, Some StreamAborted)
      else
        (let win = fst (Window_Write (ww_win ww) p);
             (win', cw, result, err) =
               Flush (countWriter_Write hw_Write) win \<lparr>cw_dst = ww_dst ww, cw_written = 0\<rparr>;
             h = emit [StreamCheckDurationSeconds [tenant_id]] (cw_dst cw);
             ww = ww\<lparr>ww_win := win', ww_dst := h\<rparr>
         in case err of
              Some e \<Rightarrow> (ww, length p, Some (DstError e))
            | None \<Rightarrow>
                if result = ScanAbort then
                  (ww\<lparr>ww_aborted := True, ww_dst := log_h sv LevelWarn ''stream_aborted_unsafe_output'' h\<rparr>,
                   0, Some StreamAborted)
                else if 0 < cw_written cw then
                  (if \<not> ww_first_sent ww
                   then (ww\<lparr>ww_first_sent := True,
                            ww_dst := log_h sv LevelInfo ''stream_first_chunk_sent''
                                        (emit [StreamTTFTSeconds [tenant_id]] h)\<rparr>, length p, None)
                   else (ww\<lparr>ww_chunks := ww_chunks ww + 1,
                            ww_dst := emit [StreamInterChunkDurationSeconds [tenant_id]] h\<rparr>, length p, None))
                else (ww, length p, None)))"

subsection \<open>Policy evaluation\<close>

definition evalPolicy :: "server \<Rightarrow> 's env \<Rightarrow> string \<Rightarrow> rat \<Rightarrow> string \<Rightarrow> 's \<Rightarrow> Dsl_Compiler.verdict" where
  "evalPolicy sv env tenant_id input_risk_score req_model store =
     (case e_bundle env of
        None \<Rightarrow> no_verdict
      | Some b \<Rightarrow>
          (let daily_tokens =
                 (case sv_quota sv of
                    None \<Rightarrow> Fin 0
                  | Some q \<Rightarrow>
                      (case quota_Total (e_ops env) tenant_id (e_day_total env) (e_link_total env) store of
                         Inr tot \<Rightarrow> f64_of_int tot
                       | Inl _ \<Rightarrow> Fin 0));
               ctx = \<lparr>InputRiskScore = Fin input_risk_score, RequestModel = req_model,
                      TenantDailyTokens = daily_tokens\<rparr>
           in if b_tenant_id b \<noteq> tenant_id then no_verdict else Bundle_Evaluate b ctx))"

definition policy_blocks :: "Dsl_Compiler.verdict \<Rightarrow> bool" where
  "policy_blocks v \<longleftrightarrow> v_matched v \<and> v_action v = ActionBlock"

subsection \<open>The common front of both handlers\<close>

text \<open>
  Method, body size, JSON and prompt: \<open>Inl\<close> is the status and the code of the error
  response.  The decoder reads at most \<open>MaxBodyBytes\<close> bytes; when more follow, the reader
  fails after them.
\<close>

definition store_request :: "bytes \<Rightarrow> json \<Rightarrow> bytes \<Rightarrow> bytes \<times> bool" where
  "store_request k v prompt = (if field_matches k ''prompt'' then store_string v prompt else (prompt, True))"

definition decode_request :: "int \<Rightarrow> bytes \<Rightarrow> unit json_error + bytes" where
  "decode_request max_bytes body =
     decode_into store_request [] (take (nat max_bytes) body)
       (if nat max_bytes < length body then Some () else None)"

datatype front = Refuse int string | Prompt string

definition read_prompt :: "server \<Rightarrow> 's env \<Rightarrow> request \<Rightarrow> front" where
  "read_prompt sv env rq =
     (let mx = cfg_MaxBodyBytes (sv_cfg sv)
      in if rq_method rq \<noteq> ''POST'' then Refuse 405 ''method_not_allowed''
         else if mx < rq_content_length rq then Refuse 413 ''payload_too_large''
         else
           (case decode_request mx (rq_body rq) of
              Inl _ \<Rightarrow> Refuse 400 ''invalid_request_body''
            | Inr prompt \<Rightarrow> if prompt = [] then Refuse 400 ''prompt_required'' else Prompt prompt))"

text \<open>
  The input scan and the policy.  \<open>Inl\<close>: the request was answered with 403; \<open>Inr\<close>: it goes
  on to the backend.
\<close>

definition guard_prompt ::
  "server \<Rightarrow> 's env \<Rightarrow> string \<Rightarrow> string \<Rightarrow> string \<Rightarrow> 's hstate \<Rightarrow> 's hstate + 's hstate" where
  "guard_prompt sv env req_id tenant_id prompt h =
     (let result = Scan (e_log2 env) (e_map_order env) prompt;
          h = log_h sv LevelInfo ''guardrail_scan'' h
      in if Verdict result = VerdictBlock then
           Inl (writeJSON 403
                  (json_map
                    [(''error'', JString ''guardrail_block''),
                     (''reason'', JString ''Request blocked by input safety policy''),
                     (''score'', JNumber (format_unit_float (Score result))), (''request_id'', JString req_id)])
                  (emit [GuardrailBlocksTotal [tenant_id, ''input'']]
                    (log_h sv LevelWarn ''guardrail_blocked'' h)))
         else
           (let v = evalPolicy sv env tenant_id (Score result) ''mock-llm-v1'' (h_store h)
            in if policy_blocks v then
                 Inl (writeJSON 403
                        (json_map
                          [(''error'', JString ''policy_block''), (''rule'', JString (v_rule_name v)),
                           (''reason'', JString (v_reason v)), (''request_id'', JString req_id)])
                        (emit [PolicyEvaluationsTotal [tenant_id, ''block'']]
                          (log_h sv LevelWarn ''policy_blocked'' h)))
               else Inr h))"

subsection \<open>\<open>POST /v1/complete\<close>\<close>

text \<open>The sum of the two counts is a 64-bit addition; the division rounds towards zero.\<close>

definition wrap64 :: "int \<Rightarrow> int" where
  "wrap64 n = (n + 2 ^ 63) mod 2 ^ 64 - 2 ^ 63"

definition charged_tokens :: "generate_result \<Rightarrow> string \<Rightarrow> int" where
  "charged_tokens r prompt =
     (let tokens = wrap64 (gr_input_tokens r + gr_output_tokens r);
          tokens = (if tokens < 1 then int ((length prompt + length (gr_text r)) div 4) else tokens)
      in if tokens < 1 then 1 else tokens)"

definition add_usage :: "server \<Rightarrow> 's env \<Rightarrow> string \<Rightarrow> int \<Rightarrow> 's hstate \<Rightarrow> 's hstate" where
  "add_usage sv env tenant_id tokens h =
     (case sv_quota sv of
        None \<Rightarrow> h
      | Some q \<Rightarrow>
          (case quota_Add (e_ops env) q tenant_id (e_day_add env) tokens (e_link_add env) (h_store h) of
             (store, Inl e) \<Rightarrow> log_h sv LevelError ''quota_add_error'' (h\<lparr>h_store := store\<rparr>)
           | (store, Inr _) \<Rightarrow> h\<lparr>h_store := store\<rparr>))"

definition handleComplete :: "server \<Rightarrow> 's env \<Rightarrow> request_ctx \<Rightarrow> request \<Rightarrow> 's hstate \<Rightarrow> 's hstate" where
  "handleComplete sv env ctx rq h =
     (let req_id = requestIDFromCtx ctx;
          tenant_id = t_id (fst (TenantFromCtx ctx))
      in case read_prompt sv env rq of
           Refuse status code \<Rightarrow>
             writeError status code req_id
               (if status = 413 then log_h sv LevelWarn ''request_body_too_large'' h else h)
         | Prompt prompt \<Rightarrow>
             (case guard_prompt sv env req_id tenant_id prompt h of
                Inl h \<Rightarrow> h
              | Inr h \<Rightarrow>
                  (let h = h\<lparr>h_calls := h_calls h @ [Generate prompt]\<rparr>
                   in case e_generate env prompt of
                        Inl err \<Rightarrow>
                          if is_deadline err
                          then writeError 504 ''provider_timeout'' req_id
                                 (log_h sv LevelError ''provider_timeout'' h)
                          else writeError 502 ''provider_error'' req_id
                                 (log_h sv LevelError ''provider_error'' h)
                      | Inr r \<Rightarrow>
                          add_usage sv env tenant_id (charged_tokens r prompt)
                            (writeJSON 200 (JObject [(''request_id'', JString req_id), (''response'', JString (gr_text r))])
                              (log_h sv LevelInfo ''provider_response_ok'' h)))))"

subsection \<open>\<open>POST /v1/stream\<close>\<close>

text \<open>The error events, \<open>fmt.Fprintf(w, "data: {\"error\":...,\"request_id\":%q}\n\n", ...)\<close>.\<close>

definition qt :: "string \<Rightarrow> string" where
  "qt s = [DQUOTE] @ s @ [DQUOTE]"

definition sentinel :: "'s env \<Rightarrow> string \<Rightarrow> string option \<Rightarrow> string \<Rightarrow> bytes" where
  "sentinel env code msg req_id =
     ''data: {'' @ qt ''error'' @ '':'' @ qt code @ '','' @
     (case msg of None \<Rightarrow> [] | Some m \<Rightarrow> qt ''message'' @ '':'' @ Quote (e_printable env) m @ '','') @
     qt ''request_id'' @ '':'' @ Quote (e_printable env) req_id @ ''}'' @ [NL, NL]"

definition send :: "bytes \<Rightarrow> 's hstate \<Rightarrow> 's hstate" where
  "send p h = fst (hw_Write h p)"

definition start_stream :: "string \<Rightarrow> 's hstate \<Rightarrow> 's hstate" where
  "start_stream req_id h =
     rw_WriteHeader 200
       (set_header ''X-Request-ID'' req_id
         (set_header ''Cache-Control'' ''no-cache''
           (set_header ''Content-Type'' ''text/event-stream'' h)))"

definition new_windowWriter :: "server \<Rightarrow> 's hstate \<Rightarrow> 's windowWriter" where
  "new_windowWriter sv h =
     \<lparr>ww_win = NewWindow (cfg_WindowSize (sv_cfg sv)), ww_dst = h, ww_aborted = False,
      ww_first_sent = False, ww_chunks = 0\<rparr>"

definition abort_metrics :: "string \<Rightarrow> event list" where
  "abort_metrics tenant_id = [StreamAbortsTotal [tenant_id], GuardrailBlocksTotal [tenant_id, ''output'']]"

text \<open>What follows the return of \<open>StreamTo\<close>.\<close>

definition finish_stream ::
  "server \<Rightarrow> 's env \<Rightarrow> string \<Rightarrow> string \<Rightarrow> 's windowWriter \<Rightarrow> ww_error provider_error option \<Rightarrow> 's hstate" where
  "finish_stream sv env req_id tenant_id ww err =
     (let h = ww_dst ww
      in case err of
           Some e \<Rightarrow>
             if \<not> ww_aborted ww then
               (if is_deadline e
                then send (sentinel env ''provider_timeout'' None req_id)
                       (log_h sv LevelError ''stream_provider_timeout'' h)
                else send (sentinel env ''provider_error'' (Some (e_error_text env e)) req_id)
                       (log_h sv LevelError ''stream_provider_error'' h))
             else h
         | None \<Rightarrow>
             if ww_aborted ww then
               send (sentinel env ''output_policy_violation'' None req_id) (emit (abort_metrics tenant_id) h)
             else
               (let (win', cw, result, _) =
                      DrainSafe (countWriter_Write hw_Write) (ww_win ww) \<lparr>cw_dst = h, cw_written = 0\<rparr>;
                    h = emit [StreamCheckDurationSeconds [tenant_id]] (cw_dst cw);
                    h = (if 0 < cw_written cw \<and> \<not> ww_first_sent ww
                         then emit [StreamTTFTSeconds [tenant_id]] h else h)
                in if result = ScanAbort then
                     send (sentinel env ''output_policy_violation'' None req_id)
                       (emit (abort_metrics tenant_id)
                         (log_h sv LevelWarn ''stream_aborted_unsafe_output_drain'' h))
                   else log_h sv LevelInfo ''stream_completed'' h))"

definition run_stream :: "server \<Rightarrow> 's env \<Rightarrow> string \<Rightarrow> string \<Rightarrow> string \<Rightarrow> 's hstate \<Rightarrow> 's hstate" where
  "run_stream sv env req_id tenant_id prompt h =
     (let h = start_stream req_id h;
          h = h\<lparr>h_calls := h_calls h @ [StreamTo prompt]\<rparr>;
          (ww, err) = e_stream env prompt (ww_Write sv tenant_id) (new_windowWriter sv h)
      in finish_stream sv env req_id tenant_id ww err)"

definition handleStream :: "server \<Rightarrow> 's env \<Rightarrow> request_ctx \<Rightarrow> request \<Rightarrow> 's hstate \<Rightarrow> 's hstate" where
  "handleStream sv env ctx rq h =
     (let req_id = requestIDFromCtx ctx;
          tenant_id = t_id (fst (TenantFromCtx ctx))
      in case read_prompt sv env rq of
           Refuse status code \<Rightarrow> writeError status code req_id h
         | Prompt prompt \<Rightarrow>
             (case guard_prompt sv env req_id tenant_id prompt h of
                Inl h \<Rightarrow> h
              | Inr h \<Rightarrow> run_stream sv env req_id tenant_id prompt h))"

subsection \<open>Routing and middleware\<close>

definition handleHealth :: "'s hstate \<Rightarrow> 's hstate" where
  "handleHealth h =
     send (''{'' @ qt ''status'' @ '':'' @ qt ''ok'' @ ''}'') (set_header ''Content-Type'' ''application/json'' h)"

definition mux :: "server \<Rightarrow> 's env \<Rightarrow> request_ctx \<Rightarrow> request \<Rightarrow> 's hstate \<Rightarrow> 's hstate" where
  "mux sv env ctx rq h =
     (if rq_path rq = ''/v1/complete'' then handleComplete sv env ctx rq h
      else if rq_path rq = ''/v1/stream'' then handleStream sv env ctx rq h
      else if rq_path rq = ''/healthz'' then handleHealth h
      else e_other_routes env (rq_path rq) h)"

definition exempt :: "string \<Rightarrow> bool" where
  "exempt path \<longleftrightarrow> path = ''/healthz'' \<or> path = ''/metrics''"

text \<open>
  Authentication, rate limit and quota.  \<open>Inl\<close>: the request was answered; \<open>Inr\<close>: it goes on
  with the context and the tenant's id.
\<close>

definition check_rate :: "server \<Rightarrow> 's env \<Rightarrow> string \<Rightarrow> 's hstate \<Rightarrow> 's hstate + 's hstate" where
  "check_rate sv env tenant_id h =
     (case sv_limiter sv of
        None \<Rightarrow> Inr h
      | Some l \<Rightarrow>
          (case Allow (e_ops env) l tenant_id (e_now env) (e_link_allow env) (h_store h) of
             (store, Inl e) \<Rightarrow> Inr (log_h sv LevelError ''rate_limit_error'' (h\<lparr>h_store := store\<rparr>))
           | (store, Inr (ok, remaining)) \<Rightarrow>
               if \<not> ok then
                 Inl (writeJSON 429
                       (json_map [(''error'', JString ''rate_limit_exceeded''), (''request_id'', JString (e_req_id env))])
                       (set_header ''Retry-After'' ''60''
                         (emit [RateLimitHitsTotal [tenant_id, ''rate'']]
                           (log_h sv LevelWarn ''rate_limited'' (h\<lparr>h_store := store\<rparr>)))))
               else Inr (set_header ''X-RateLimit-Remaining''
                          (itoa remaining)
                          (h\<lparr>h_store := store\<rparr>))))"

definition check_quota :: "server \<Rightarrow> 's env \<Rightarrow> string \<Rightarrow> 's hstate \<Rightarrow> 's hstate + 's hstate" where
  "check_quota sv env tenant_id h =
     (case sv_quota sv of
        None \<Rightarrow> Inr h
      | Some q \<Rightarrow>
          (case quota_Check (e_ops env) q tenant_id (e_day_check env) (e_link_check env) (h_store h) of
             Inl e \<Rightarrow> Inr (log_h sv LevelError ''quota_check_error'' h)
           | Inr (_, under_limit) \<Rightarrow>
               if \<not> under_limit then
                 Inl (writeJSON 429
                       (json_map [(''error'', JString ''daily_quota_exceeded''), (''request_id'', JString (e_req_id env))])
                       (emit [RateLimitHitsTotal [tenant_id, ''quota'']]
                         (log_h sv LevelWarn ''quota_exceeded'' h)))
               else Inr h))"

definition admit ::
  "server \<Rightarrow> 's env \<Rightarrow> request \<Rightarrow> request_ctx \<Rightarrow> 's hstate \<Rightarrow> 's hstate + request_ctx \<times> string \<times> 's hstate" where
  "admit sv env rq ctx h =
     (if exempt (rq_path rq) then Inr (ctx, [], h)
      else
        (case Authenticate (sv_auth sv) (rq_authorization rq) of
           Inl _ \<Rightarrow> Inl (writeError 401 ''unauthorized'' (e_req_id env) (log_h sv LevelWarn ''auth_failed'' h))
         | Inr tenant \<Rightarrow>
             (case check_rate sv env (t_id tenant) h of
                Inl h \<Rightarrow> Inl h
              | Inr h \<Rightarrow>
                  (case check_quota sv env (t_id tenant) h of
                     Inl h \<Rightarrow> Inl h
                   | Inr h \<Rightarrow> Inr (WithTenant ctx tenant, t_id tenant, h)))))"

definition withMiddleware ::
  "server \<Rightarrow> 's env \<Rightarrow> (request_ctx \<Rightarrow> request \<Rightarrow> 's hstate \<Rightarrow> 's hstate) \<Rightarrow> request \<Rightarrow> 's hstate \<Rightarrow> 's hstate" where
  "withMiddleware sv env handler rq h =
     (let h = set_header ''X-Request-ID'' (e_req_id env) h;
          ctx = \<lparr>ctx_request_id = Some (e_req_id env), ctx_tenant = None\<rparr>
      in case admit sv env rq ctx h of
           Inl h \<Rightarrow> h
         | Inr (ctx, tenant_id, h) \<Rightarrow>
             (let h = handler ctx rq ((log_h sv LevelInfo ''request_started'' h)\<lparr>h_status := 200\<rparr>);
                  h = log_h sv LevelInfo ''request_completed'' h
              in if \<not> exempt (rq_path rq)
                 then emit [RequestsTotal [tenant_id, itoa (h_status h), rq_path rq],
                            RequestDuration [tenant_id, rq_path rq]] h
                 else h))"

definition serve :: "server \<Rightarrow> 's env \<Rightarrow> request \<Rightarrow> 's hstate \<Rightarrow> 's hstate" where
  "serve sv env rq h = withMiddleware sv env (mux sv env) rq h"

end
