(* ===== verification/Gateway_Safety.thy ===== *)
theory Gateway_Safety
  imports Gateway
begin

text \<open>
  What the gateway guarantees over its components: which requests reach the model backend,
  what the body of a stream can contain whatever the backend sends and wherever the
  client's connection breaks, what is charged, and how it behaves without Redis.
\<close>

subsection \<open>What the operations keep\<close>

lemma emit_sel [simp]:
  "h_resp (emit es h) = h_resp h" "h_calls (emit es h) = h_calls h" "h_store (emit es h) = h_store h"
  "h_status (emit es h) = h_status h"
  by (simp_all add: emit_def)

lemma log_h_sel [simp]:
  "h_resp (log_h sv lv msg h) = h_resp h" "h_calls (log_h sv lv msg h) = h_calls h"
  "h_store (log_h sv lv msg h) = h_store h" "h_status (log_h sv lv msg h) = h_status h"
  by (simp_all add: log_h_def)

lemma hw_Write_sel:
  "hw_Write h p = (h', n, err) \<Longrightarrow> h_calls h' = h_calls h \<and> h_store h' = h_store h \<and> h_status h' = h_status h"
  by (auto simp: hw_Write_def split: prod.split_asm)

lemma send_sel [simp]:
  "h_calls (send p h) = h_calls h" "h_store (send p h) = h_store h" "h_status (send p h) = h_status h"
  using hw_Write_sel [of h p] by (metis send_def prod.collapse)+

lemma rw_WriteHeader_sel [simp]:
  "h_calls (rw_WriteHeader c h) = h_calls h" "h_store (rw_WriteHeader c h) = h_store h"
  "h_body (rw_WriteHeader c h) = h_body h" "rs_conn (h_resp (rw_WriteHeader c h)) = rs_conn (h_resp h)"
  by (simp_all add: rw_WriteHeader_def)

lemma set_header_sel [simp]:
  "h_calls (set_header k v h) = h_calls h" "h_store (set_header k v h) = h_store h"
  "h_body (set_header k v h) = h_body h" "rs_conn (h_resp (set_header k v h)) = rs_conn (h_resp h)"
  by (simp_all add: set_header_def Header_Set_def)

lemma start_stream_sel [simp]:
  "h_calls (start_stream i h) = h_calls h" "h_store (start_stream i h) = h_store h"
  "h_body (start_stream i h) = h_body h" "rs_conn (h_resp (start_stream i h)) = rs_conn (h_resp h)"
  by (simp_all add: start_stream_def)

lemma writeJSON_send: "writeJSON c v h =
    send (json_encode v @ [NL]) (rw_WriteHeader c (set_header ''Content-Type'' ''application/json'' h))"
  by (simp add: writeJSON_def send_def)

lemma writeJSON_sel [simp]:
  "h_calls (writeJSON c v h) = h_calls h" "h_store (writeJSON c v h) = h_store h"
  by (simp_all add: writeJSON_send)

lemma writeError_sel [simp]:
  "h_calls (writeError c e i h) = h_calls h" "h_store (writeError c e i h) = h_store h"
  by (simp_all add: writeError_def)

text \<open>A broken connection takes no further byte.\<close>

definition dead :: "'s hstate \<Rightarrow> bool" where
  "dead h \<longleftrightarrow> rs_conn (h_resp h) = Some 0"

lemma hw_Write_error: "hw_Write h p = (h', n, Some e) \<Longrightarrow> dead h'"
  by (auto simp: hw_Write_def http_Write_def dead_def Let_def split: option.split_asm if_split_asm)

lemma hw_Write_dead: "hw_Write h p = (h', n, err) \<Longrightarrow> dead h \<Longrightarrow> dead h' \<and> h_body h' = h_body h"
  by (auto simp: hw_Write_def http_Write_def dead_def Let_def split: option.split_asm if_split_asm)

lemma dead_sel [simp]: "dead (emit es h) = dead h" "dead (log_h sv lv msg h) = dead h"
  by (simp_all add: dead_def)

lemma send_body: "\<exists>k. h_body (send p h) = h_body h @ take k p"
  using handler.write_prefix [of h p] by (metis send_def prod.collapse)

lemma send_dead [simp]: "dead h \<Longrightarrow> h_body (send p h) = h_body h"
  using hw_Write_dead [of h p] by (metis send_def prod.collapse)

text \<open>What an operation of the window does to its destination is a write or nothing.\<close>

lemma Flush_dst: "fst (snd (Flush wr w dst)) \<in> insert dst (range (\<lambda>p. fst (wr dst p)))"
proof -
  let ?r = "wr dst (take (length (win_buf w) - win_size w) (win_buf w))"
  have "fst (snd (Flush wr w dst)) = dst \<or> fst (snd (Flush wr w dst)) = fst ?r"
    by (simp add: Flush_def Let_def split: prod.split option.split)
  then show ?thesis by auto
qed

lemma DrainSafe_dst: "fst (snd (DrainSafe wr w dst)) \<in> insert dst (range (\<lambda>p. fst (wr dst p)))"
proof -
  have "fst (snd (DrainSafe wr w dst)) = dst \<or> fst (snd (DrainSafe wr w dst)) = fst (wr dst (win_buf w))"
    by (cases "wr dst (win_buf w)") (simp add: DrainSafe_def Let_def)
  then show ?thesis by auto
qed

abbreviation cw_hstate :: "('s hstate countWriter, string) writer" where
  "cw_hstate \<equiv> countWriter_Write hw_Write"

lemma cw_Write_sel [simp]:
  "h_calls (cw_dst (fst (cw_hstate cw p))) = h_calls (cw_dst cw)"
  "h_store (cw_dst (fst (cw_hstate cw p))) = h_store (cw_dst cw)"
  by (cases "hw_Write (cw_dst cw) p"; simp add: countWriter_Write_def hw_Write_sel)+

lemma cw_Write_dead:
  "dead (cw_dst cw) \<Longrightarrow> dead (cw_dst (fst (cw_hstate cw p))) \<and>
     h_body (cw_dst (fst (cw_hstate cw p))) = h_body (cw_dst cw)"
  by (cases "hw_Write (cw_dst cw) p") (simp add: countWriter_Write_def hw_Write_dead)

lemma cw_Write_error: "cw_hstate cw p = (cw', n, Some e) \<Longrightarrow> dead (cw_dst cw')"
  by (auto simp: countWriter_Write_def split: prod.split_asm dest: hw_Write_error)

lemma Flush_sel:
  assumes "Flush cw_hstate w cw = (w', cw', st, err)"
  shows "h_calls (cw_dst cw') = h_calls (cw_dst cw) \<and> h_store (cw_dst cw') = h_store (cw_dst cw)"
  using Flush_dst [of cw_hstate w cw] assms by auto

lemma Flush_error: "Flush cw_hstate w cw = (w', cw', st, Some e) \<Longrightarrow> dead (cw_dst cw') \<and> st = ScanOK"
  by (auto simp: Flush_def Let_def split: if_split_asm prod.split_asm option.split_asm dest: cw_Write_error)

lemma DrainSafe_sel:
  assumes "DrainSafe cw_hstate w cw = (w', cw', st, err)"
  shows "h_calls (cw_dst cw') = h_calls (cw_dst cw) \<and> h_store (cw_dst cw') = h_store (cw_dst cw)"
  using DrainSafe_dst [of cw_hstate w cw] assms by auto

interpretation cw: io_writer cw_hstate "\<lambda>cw. h_body (cw_dst cw)"
  by (rule handler.counting_writer)

subsection \<open>The writer of a stream\<close>

lemma ww_Write_sel:
  assumes "ww_Write sv t ww p = (ww', n, err)"
  shows "h_calls (ww_dst ww') = h_calls (ww_dst ww) \<and> h_store (ww_dst ww') = h_store (ww_dst ww)"
proof -
  obtain w' cw' st e where fl: "Flush cw_hstate (fst (Window_Write (ww_win ww) p)) \<lparr>cw_dst = ww_dst ww, cw_written = 0\<rparr>
      = (w', cw', st, e)" by (metis prod_cases4)
  from Flush_sel [OF fl] assms show ?thesis
    by (auto simp: ww_Write_def fl Let_def split: if_split_asm option.split_asm)
qed

text \<open>
  \<open>held base m S w h\<close>: the window has taken the stream \<open>S\<close>, a scanned prefix of it was
  forwarded behind \<open>base\<close>, and the window still buffers what follows the prefix; once the
  connection is broken it may buffer bytes that the client already has.
\<close>

definition held :: "bytes \<Rightarrow> nat \<Rightarrow> bytes \<Rightarrow> window \<Rightarrow> 's hstate \<Rightarrow> bool" where
  "held base m S w h \<longleftrightarrow>
     win_size w = m \<and>
     (\<exists>k k0. handler.forwarded base m S k h \<and> k0 \<le> k \<and> win_buf w = drop k0 S \<and> (k0 < k \<longrightarrow> dead h))"

abbreviation streaming :: "bytes \<Rightarrow> nat \<Rightarrow> bytes \<Rightarrow> 's windowWriter \<Rightarrow> bool" where
  "streaming base m S ww \<equiv> held base m S (ww_win ww) (ww_dst ww)"

lemma held_events [simp]:
  "held base m S w (emit es h) = held base m S w h"
  "held base m S w (log_h sv lv msg h) = held base m S w h"
  by (simp_all add: held_def handler.forwarded_def)

lemma streaming_start:
  "streaming (h_body h) (win_size (NewWindow (cfg_WindowSize (sv_cfg sv)))) [] (new_windowWriter sv h)"
  by (simp add: held_def new_windowWriter_def NewWindow_def handler.forwarded_def)

lemma cw_forwarded: "cw.forwarded base m S k cw = handler.forwarded base m S k (cw_dst cw)"
  by (simp add: handler.forwarded_def cw.forwarded_def)

lemma Flush_dead:
  assumes "Flush cw_hstate w cw = (w', cw', st, err)" and "dead (cw_dst cw)"
  shows "dead (cw_dst cw') \<and> h_body (cw_dst cw') = h_body (cw_dst cw) \<and> w' = w"
proof -
  have empty: "p = []" if "cw_hstate cw p = (c, n, None)" for p c n
    using that assms(2)
    by (auto simp: countWriter_Write_def hw_Write_def http_Write_def dead_def Let_def split: prod.split_asm if_split_asm)
  show ?thesis
  proof (cases "win_buf w = [] \<or> containsUnsafe (win_buf w) \<or> length (win_buf w) \<le> win_size w")
    case True
    with assms show ?thesis by (auto simp: Flush_def Let_def split: if_split_asm)
  next
    case False
    let ?p = "take (length (win_buf w) - win_size w) (win_buf w)"
    obtain c n e where wr: "cw_hstate cw ?p = (c, n, e)" by (metis prod_cases3)
    have "?p \<noteq> []" using False by simp
    with empty [of ?p c n] wr have "e \<noteq> None" by metis
    with False assms(1) wr have "w' = w" "cw' = c" by (auto simp: Flush_def Let_def)
    with cw_Write_dead [OF assms(2), of ?p] wr show ?thesis by simp
  qed
qed

lemma Flush_streaming:
  assumes fl: "Flush cw_hstate (fst (Window_Write w p)) cw = (w', cw', st, err)"
    and inv: "handler.forwarded base (win_size w) S k (cw_dst cw)" "k0 \<le> k" "win_buf w = drop k0 S"
      "k0 < k \<longrightarrow> dead (cw_dst cw)"
  shows "win_size w' = win_size w \<and>
    (\<exists>k k0. handler.forwarded base (win_size w) (S @ p) k (cw_dst cw') \<and> k0 \<le> k \<and>
        win_buf w' = drop k0 (S @ p) \<and> (k0 < k \<longrightarrow> dead (cw_dst cw')))"
proof -
  have k: "k \<le> length S" using inv(1) by (auto simp: handler.forwarded_def)
  let ?w = "fst (Window_Write w p)"
  have w: "win_size ?w = win_size w" "win_buf ?w = drop k0 (S @ p)"
    using inv(2,3) k by (auto simp: Window_Write_def)
  have fwd: "handler.forwarded base (win_size w) (S @ p) k (cw_dst cw)"
    using inv(1) by (auto simp: handler.forwarded_def scanned_append)
  show ?thesis
  proof (cases "k0 < k")
    case True
    with inv(4) have "dead (cw_dst cw)" by blast
    from Flush_dead [OF fl this] have "dead (cw_dst cw')" "h_body (cw_dst cw') = h_body (cw_dst cw)" "w' = ?w"
      by auto
    with fwd w inv(2) show ?thesis by (auto simp: handler.forwarded_def)
  next
    case False
    with inv(2) have k0: "k0 = k" by simp
    have "cw.forwarded base (win_size ?w) (S @ p) k cw" using fwd by (simp add: cw_forwarded w)
    from cw.Flush_step [OF fl this] obtain k' where k': "win_size w' = win_size w" "k \<le> k'"
      "handler.forwarded base (win_size w) (S @ p) k' (cw_dst cw')"
      "outcome_of st err = Running \<Longrightarrow> win_buf w' = drop k' (S @ p)"
      "outcome_of st err \<noteq> Running \<Longrightarrow> w' = ?w"
      "st = ScanAbort \<Longrightarrow> cw' = cw"
      by (auto simp: w k0 cw_forwarded)
    consider "outcome_of st err = Running" | "st = ScanAbort" | e where "st = ScanOK" "err = Some e"
      by (cases st; cases err) auto
    then show ?thesis
    proof cases
      case 1
      with k' show ?thesis by auto
    next
      case 2
      with k' fwd w k0 show ?thesis by auto
    next
      case 3
      with Flush_error fl have "dead (cw_dst cw')" by blast
      with 3 k' w k0 show ?thesis by auto
    qed
  qed
qed

lemma ww_Write_streaming:
  assumes "streaming base m S ww"
  shows "streaming base m (if ww_aborted ww then S else S @ p) (fst (ww_Write sv t ww p))"
proof (cases "ww_aborted ww")
  case True
  with assms show ?thesis by (simp add: ww_Write_def)
next
  case False
  let ?cw = "\<lparr>cw_dst = ww_dst ww, cw_written = 0\<rparr>"
  obtain w' cw' st e where fl: "Flush cw_hstate (fst (Window_Write (ww_win ww) p)) ?cw = (w', cw', st, e)"
    by (metis prod_cases4)
  obtain k k0 where inv: "win_size (ww_win ww) = m" "handler.forwarded base m S k (ww_dst ww)"
    "k0 \<le> k" "win_buf (ww_win ww) = drop k0 S" "k0 < k \<longrightarrow> dead (ww_dst ww)"
    using assms by (auto simp: held_def)
  have "held base m (S @ p) w' (cw_dst cw')"
    using Flush_streaming [OF fl, of base S k k0] inv by (simp add: held_def)
  with False show ?thesis
    by (simp add: ww_Write_def fl Let_def split: option.split)
qed

lemma write_all_streaming:
  assumes "streaming base m S ww"
  obtains T U where "concat ps = T @ U" "streaming base m (S @ T) (write_all (ww_Write sv t) ww ps)"
    "ww_aborted (write_all (ww_Write sv t) ww ps) \<or> U = []"
proof -
  have "\<exists>T U. concat ps = T @ U \<and> streaming base m (S @ T) (write_all (ww_Write sv t) ww ps) \<and>
      (ww_aborted (write_all (ww_Write sv t) ww ps) \<or> U = [])"
    using assms
  proof (induction ps arbitrary: S ww)
    case (Cons p ps)
    let ?ww = "fst (ww_Write sv t ww p)"
    show ?case
    proof (cases "ww_aborted ww")
      case True
      then have "?ww = ww" by (simp add: ww_Write_def)
      moreover have "write_all (ww_Write sv t) ww ps = ww" using True
        by (induction ps) (simp_all add: ww_Write_def)
      ultimately show ?thesis using Cons.prems True
        by (intro exI [of _ "[]"] exI [of _ "p @ concat ps"]) simp
    next
      case False
      with ww_Write_streaming [OF Cons.prems, of p sv t] have "streaming base m (S @ p) ?ww" by simp
      from Cons.IH [OF this] obtain T U where "concat ps = T @ U"
        "streaming base m ((S @ p) @ T) (write_all (ww_Write sv t) ?ww ps)"
        "ww_aborted (write_all (ww_Write sv t) ?ww ps) \<or> U = []" by blast
      then show ?thesis by (intro exI [of _ "p @ T"] exI [of _ U]) simp
    qed
  qed simp
  then show ?thesis using that by blast
qed

subsection \<open>The body of a stream\<close>

definition error_event :: "'s env \<Rightarrow> string \<Rightarrow> bytes \<Rightarrow> bool" where
  "error_event env req_id e \<longleftrightarrow>
     e = sentinel env ''output_policy_violation'' None req_id \<or>
     e = sentinel env ''provider_timeout'' None req_id \<or>
     (\<exists>msg. e = sentinel env ''provider_error'' (Some msg) req_id)"

lemma error_events [simp]:
  "error_event env req_id (sentinel env ''output_policy_violation'' None req_id)"
  "error_event env req_id (sentinel env ''provider_timeout'' None req_id)"
  "error_event env req_id (sentinel env ''provider_error'' (Some msg) req_id)"
  by (auto simp: error_event_def)

lemma held_prefix:
  assumes "held base m S w h"
  obtains k where "k \<le> length S - m" "h_body h = base @ take k S" "released m S k"
  using assms scanned_released by (auto simp: held_def handler.forwarded_def)

lemma DrainSafe_dead:
  assumes "DrainSafe cw_hstate w cw = (w', cw', st, err)" and "dead (cw_dst cw)"
  shows "h_body (cw_dst cw') = h_body (cw_dst cw)"
  using DrainSafe_dst [of cw_hstate w cw] assms cw_Write_dead by auto

lemma held_drain:
  assumes dr: "DrainSafe cw_hstate w cw = (w', cw', st, err)" and inv: "held base m S w (cw_dst cw)"
  obtains k where "k \<le> length S" "h_body (cw_dst cw') = base @ take k S" "released m S k"
proof -
  obtain k k0 where k: "handler.forwarded base m S k (cw_dst cw)" "k0 \<le> k" "win_buf w = drop k0 S"
    "k0 < k \<longrightarrow> dead (cw_dst cw)"
    using inv by (auto simp: held_def)
  show ?thesis
  proof (cases "k0 < k")
    case True
    with k(4) DrainSafe_dead [OF dr] have "h_body (cw_dst cw') = h_body (cw_dst cw)" by blast
    with held_prefix [OF inv] that show ?thesis by (metis diff_le_self order_trans)
  next
    case False
    with k have buf: "win_buf w = drop k S" and fwd: "cw.forwarded base m S k cw" by (auto simp: cw_forwarded)
    from cw.DrainSafe_step [OF dr fwd buf] obtain k' where k': "k' \<le> length S"
      "h_body (cw_dst cw') = base @ take k' S" "k' = k \<or> \<not> containsUnsafe (drop k S)" by blast
    have "scanned m S k" using k(1) by (simp add: handler.forwarded_def)
    with k' have "released m S k'" using scanned_released scanned_released_end by blast
    with k' that show ?thesis by blast
  qed
qed

text \<open>
  \<open>served env req_id base S k h\<close>: the body is \<open>base\<close>, the first \<open>k\<close> bytes of the stream \<open>S\<close>, and
  at most one error event, of which a broken connection may cut off the end.
\<close>

definition served :: "'s env \<Rightarrow> string \<Rightarrow> bytes \<Rightarrow> bytes \<Rightarrow> nat \<Rightarrow> 's hstate \<Rightarrow> bool" where
  "served env req_id base S k h \<longleftrightarrow>
     (\<exists>e j. h_body h = base @ take k S @ take j e \<and> error_event env req_id e)"

lemma served_plain: "h_body h = base @ take k S \<Longrightarrow> served env req_id base S k h"
  unfolding served_def error_event_def
  by (intro exI [of _ "sentinel env ''provider_timeout'' None req_id"] exI [of _ 0]) simp

lemma served_send:
  assumes "h_body h = base @ take k S" and "error_event env req_id e"
  shows "served env req_id base S k (send e h)"
  using assms send_body [of e h] by (auto simp: served_def)

lemma finish_stream_served:
  assumes inv: "streaming base m S ww"
  shows "\<exists>k \<le> length S. served env req_id base S k (finish_stream sv env req_id tenant_id ww err) \<and>
    released m S k \<and> (err = None \<and> \<not> ww_aborted ww \<or> k \<le> length S - m)"
proof (cases "err = None \<and> \<not> ww_aborted ww")
  case False
  obtain k where k: "k \<le> length S - m" "h_body (ww_dst ww) = base @ take k S" "released m S k"
    using held_prefix [OF inv] .
  have "served env req_id base S k (finish_stream sv env req_id tenant_id ww err)"
    using False k(2)
    by (cases err) (simp_all add: finish_stream_def Let_def served_send served_plain)
  with k show ?thesis by (intro exI [of _ k]) auto
next
  case True
  obtain w' cw' st e where dr: "DrainSafe cw_hstate (ww_win ww) \<lparr>cw_dst = ww_dst ww, cw_written = 0\<rparr> =
      (w', cw', st, e)" by (metis prod_cases4)
  with inv obtain k where k: "k \<le> length S" "h_body (cw_dst cw') = base @ take k S" "released m S k"
    by (auto elim: held_drain)
  have "served env req_id base S k (finish_stream sv env req_id tenant_id ww err)"
    using True k(2)
    by (simp add: finish_stream_def dr Let_def served_send served_plain)
  with k True show ?thesis by blast
qed

text \<open>No fragment that fits the window is in what was served of a stream.\<close>

lemma served_before_fragment:
  assumes S: "T @ U = a @ f @ b" and rel: "released m T k" "k \<le> length T"
    and f: "unsafe_fragment f" "length f \<le> m + 1" and stop: "U = [] \<or> k \<le> length T - m"
  shows "k \<le> length a"
proof (cases "length (a @ f) \<le> length T")
  case True
  with S obtain b' where "T = a @ f @ b'"
    by (metis append.assoc append_eq_append_conv_if append_eq_conv_conj)
  with rel(1) released_before_fragment [OF _ f] show ?thesis by blast
next
  case False
  with S have "U \<noteq> []" by (auto dest: arg_cong [of _ _ length])
  with stop False f(2) show ?thesis by auto
qed

lemma finish_stream_sel [simp]:
  "h_calls (finish_stream sv env i t ww err) = h_calls (ww_dst ww)"
  "h_store (finish_stream sv env i t ww err) = h_store (ww_dst ww)"
proof -
  obtain w' cw' st e where dr: "DrainSafe cw_hstate (ww_win ww) \<lparr>cw_dst = ww_dst ww, cw_written = 0\<rparr> =
      (w', cw', st, e)" by (metis prod_cases4)
  from DrainSafe_sel [OF dr] show "h_calls (finish_stream sv env i t ww err) = h_calls (ww_dst ww)"
    "h_store (finish_stream sv env i t ww err) = h_store (ww_dst ww)"
    by (simp_all add: finish_stream_def dr Let_def split: option.split)
qed

lemma run_stream_sel:
  fixes h :: "'a hstate"
  assumes "stream_source (e_stream env)"
  shows "h_calls (run_stream sv env i t prompt h) = h_calls h @ [StreamTo prompt] \<and>
    h_store (run_stream sv env i t prompt h) = h_store h"
proof -
  let ?h = "(start_stream i h)\<lparr>h_calls := h_calls h @ [StreamTo prompt]\<rparr>"
  let ?I = "\<lambda>ww :: 'a windowWriter. h_calls (ww_dst ww) = h_calls ?h \<and> h_store (ww_dst ww) = h_store ?h"
  have "?I (fst (e_stream env prompt (ww_Write sv t) (new_windowWriter sv ?h)))"
  proof (rule stream_source.preserves [OF assms])
    fix ww :: "'a windowWriter" and p assume "?I ww"
    then show "?I (fst (ww_Write sv t ww p))"
      using ww_Write_sel [of sv t ww p] by (metis prod.collapse)
  qed (simp add: new_windowWriter_def)
  then show ?thesis by (simp add: run_stream_def Let_def case_prod_beta)
qed

lemma run_stream_served:
  fixes sv defines "m \<equiv> win_size (NewWindow (cfg_WindowSize (sv_cfg sv)))"
  assumes "chunk_source (e_stream env) chunks"
  shows "\<exists>T U k. concat (chunks prompt) = T @ U \<and> k \<le> length T \<and> released m T k \<and>
    served env i (h_body h) T k (run_stream sv env i t prompt h) \<and> (U = [] \<or> k \<le> length T - m)"
proof -
  let ?h = "(start_stream i h)\<lparr>h_calls := h_calls h @ [StreamTo prompt]\<rparr>"
  let ?ww = "new_windowWriter sv ?h"
  obtain ww err where st: "e_stream env prompt (ww_Write sv t) ?ww = (ww, err)" by fastforce
  obtain n where n: "ww = write_all (ww_Write sv t) ?ww (take n (chunks prompt))"
    "err = None \<longrightarrow> length (chunks prompt) \<le> n"
    using chunk_source.writes_chunks [OF assms(2), of prompt "ww_Write sv t" ?ww] st by auto
  have "streaming (h_body h) m [] ?ww"
    using streaming_start [of ?h sv] by (simp add: m_def)
  then obtain T U where T: "concat (take n (chunks prompt)) = T @ U" "streaming (h_body h) m T ww"
    "ww_aborted ww \<or> U = []"
    using write_all_streaming [of "h_body h" m "[]" ?ww "take n (chunks prompt)" sv t] n(1) by auto
  have all: "concat (chunks prompt) = T @ U @ concat (drop n (chunks prompt))"
    using T(1) by (metis append.assoc append_take_drop_id concat_append)
  from finish_stream_served [OF T(2), of env i sv t err] obtain k where k: "k \<le> length T"
    "served env i (h_body h) T k (finish_stream sv env i t ww err)" "released m T k"
    "err = None \<and> \<not> ww_aborted ww \<or> k \<le> length T - m" by blast
  have "run_stream sv env i t prompt h = finish_stream sv env i t ww err"
    by (simp add: run_stream_def Let_def st)
  with k all T(3) n(2) show ?thesis by (intro exI conjI) auto
qed

subsection \<open>The way to the backend\<close>

lemma guard_prompt_Inl: "guard_prompt sv env i t prompt h = Inl h' \<Longrightarrow> h_calls h' = h_calls h \<and> h_store h' = h_store h"
  by (auto simp: guard_prompt_def Let_def split: if_split_asm)

lemma guard_prompt_Inr:
  "guard_prompt sv env i t prompt h = Inr h' \<longleftrightarrow>
   h' = log_h sv LevelInfo ''guardrail_scan'' h \<and>
   Verdict (Scan (e_log2 env) (e_map_order env) prompt) \<noteq> VerdictBlock \<and>
   \<not> policy_blocks (evalPolicy sv env t (Score (Scan (e_log2 env) (e_map_order env) prompt))
       ''mock-llm-v1'' (h_store h))"
  by (auto simp: guard_prompt_def Let_def)

lemma read_prompt_Prompt:
  "read_prompt sv env rq = Prompt prompt \<longleftrightarrow>
   rq_method rq = ''POST'' \<and> rq_content_length rq \<le> cfg_MaxBodyBytes (sv_cfg sv) \<and> prompt \<noteq> [] \<and>
   decode_request (cfg_MaxBodyBytes (sv_cfg sv)) (rq_body rq) = Inr prompt"
  by (auto simp: read_prompt_def Let_def split: sum.split)

text \<open>The verdicts of the limiter and of the quota; a failed Redis call does not refuse.\<close>

definition rate_ok :: "server \<Rightarrow> 's env \<Rightarrow> string \<Rightarrow> 's \<Rightarrow> bool" where
  "rate_ok sv env t store =
     (case sv_limiter sv of
        None \<Rightarrow> True
      | Some l \<Rightarrow>
          (case snd (Allow (e_ops env) l t (e_now env) (e_link_allow env) store) of
             Inl _ \<Rightarrow> True | Inr (ok, _) \<Rightarrow> ok))"

definition after_rate :: "server \<Rightarrow> 's env \<Rightarrow> string \<Rightarrow> 's \<Rightarrow> 's" where
  "after_rate sv env t store =
     (case sv_limiter sv of
        None \<Rightarrow> store
      | Some l \<Rightarrow> fst (Allow (e_ops env) l t (e_now env) (e_link_allow env) store))"

definition quota_ok :: "server \<Rightarrow> 's env \<Rightarrow> string \<Rightarrow> 's \<Rightarrow> bool" where
  "quota_ok sv env t store =
     (case sv_quota sv of
        None \<Rightarrow> True
      | Some q \<Rightarrow>
          (case quota_Check (e_ops env) q t (e_day_check env) (e_link_check env) store of
             Inl _ \<Rightarrow> True | Inr (_, ok) \<Rightarrow> ok))"

lemma check_rate_Inl:
  "check_rate sv env t h = Inl h' \<Longrightarrow>
   \<not> rate_ok sv env t (h_store h) \<and> h_calls h' = h_calls h \<and> h_store h' = after_rate sv env t (h_store h)"
  by (auto simp: check_rate_def rate_ok_def after_rate_def split: option.split_asm prod.split_asm sum.split_asm if_split_asm)

lemma check_rate_Inr:
  "check_rate sv env t h = Inr h' \<Longrightarrow>
   rate_ok sv env t (h_store h) \<and> h_calls h' = h_calls h \<and> h_store h' = after_rate sv env t (h_store h) \<and>
   h_body h' = h_body h \<and> rs_conn (h_resp h') = rs_conn (h_resp h)"
  by (auto simp: check_rate_def rate_ok_def after_rate_def split: option.split_asm prod.split_asm sum.split_asm if_split_asm)

lemma check_quota_Inl:
  "check_quota sv env t h = Inl h' \<Longrightarrow>
   \<not> quota_ok sv env t (h_store h) \<and> h_calls h' = h_calls h \<and> h_store h' = h_store h"
  by (auto simp: check_quota_def quota_ok_def split: option.split_asm prod.split_asm sum.split_asm if_split_asm)

lemma check_quota_Inr:
  "check_quota sv env t h = Inr h' \<Longrightarrow>
   quota_ok sv env t (h_store h) \<and> h_calls h' = h_calls h \<and> h_store h' = h_store h \<and> h_body h' = h_body h \<and> rs_conn (h_resp h') = rs_conn (h_resp h)"
  by (auto simp: check_quota_def quota_ok_def split: option.split_asm prod.split_asm sum.split_asm if_split_asm)

lemma admit_Inl: "admit sv env rq ctx h = Inl h' \<Longrightarrow> h_calls h' = h_calls h"
  by (auto simp: admit_def split: if_split_asm sum.split_asm dest!: check_rate_Inl check_rate_Inr check_quota_Inl)

lemma admit_Inr:
  assumes "admit sv env rq ctx h = Inr (ctx', tid, h')"
  shows "h_calls h' = h_calls h \<and> h_body h' = h_body h \<and> rs_conn (h_resp h') = rs_conn (h_resp h) \<and>
    (exempt (rq_path rq) \<or>
     (\<exists>t. Authenticate (sv_auth sv) (rq_authorization rq) = Inr t \<and> rate_ok sv env (t_id t) (h_store h) \<and>
        quota_ok sv env (t_id t) (after_rate sv env (t_id t) (h_store h)) \<and>
        ctx' = WithTenant ctx t \<and> h_store h' = after_rate sv env (t_id t) (h_store h)))"
proof (cases "exempt (rq_path rq)")
  case False
  with assms obtain t h1 where t: "Authenticate (sv_auth sv) (rq_authorization rq) = Inr t"
    and h1: "check_rate sv env (t_id t) h = Inr h1" "check_quota sv env (t_id t) h1 = Inr h'"
    and "ctx' = WithTenant ctx t"
    by (auto simp: admit_def split: sum.split_asm)
  with check_rate_Inr [OF h1(1)] check_quota_Inr [OF h1(2)] show ?thesis by auto
qed (use assms in \<open>auto simp: admit_def\<close>)

lemma admit_refused:
  "admit sv env rq ctx h = Inl h' \<Longrightarrow>
   \<not> exempt (rq_path rq) \<and>
   (\<forall>t. Authenticate (sv_auth sv) (rq_authorization rq) = Inr t \<longrightarrow>
      \<not> rate_ok sv env (t_id t) (h_store h) \<or>
      \<not> quota_ok sv env (t_id t) (after_rate sv env (t_id t) (h_store h)))"
  by (auto simp: admit_def split: if_split_asm sum.split_asm
      dest!: check_rate_Inl check_rate_Inr check_quota_Inl)

text \<open>
  The decision the gateway makes, from the request, its checks and the store alone: which
  call to the backend follows, if any.
\<close>

definition gate :: "server \<Rightarrow> 's env \<Rightarrow> request \<Rightarrow> 's \<Rightarrow> model_call option" where
  "gate sv env rq store =
     (case Authenticate (sv_auth sv) (rq_authorization rq) of
        Inl _ \<Rightarrow> None
      | Inr t \<Rightarrow>
          (let tid = t_id t; store' = after_rate sv env tid store
           in if \<not> rate_ok sv env tid store \<or> \<not> quota_ok sv env tid store' then None
              else
                (case read_prompt sv env rq of
                   Refuse _ _ \<Rightarrow> None
                 | Prompt prompt \<Rightarrow>
                     (let result = Scan (e_log2 env) (e_map_order env) prompt
                      in if Verdict result = VerdictBlock \<or>
                            policy_blocks (evalPolicy sv env tid (Score result) ''mock-llm-v1'' store') then None
                         else if rq_path rq = ''/v1/complete'' then Some (Generate prompt)
                         else if rq_path rq = ''/v1/stream'' then Some (StreamTo prompt)
                         else None))))"

abbreviation calls_of :: "model_call option \<Rightarrow> model_call list" where
  "calls_of g \<equiv> (case g of None \<Rightarrow> [] | Some c \<Rightarrow> [c])"

lemma add_usage_sel [simp]: "h_calls (add_usage sv env t n h) = h_calls h" "h_body (add_usage sv env t n h) = h_body h"
  by (simp_all add: add_usage_def split: option.split prod.split sum.split)

lemma handleComplete_calls:
  "h_calls (handleComplete sv env (WithTenant ctx t) rq h) = h_calls h @
     (case read_prompt sv env rq of
        Refuse _ _ \<Rightarrow> []
      | Prompt prompt \<Rightarrow>
          (case guard_prompt sv env (requestIDFromCtx ctx) (t_id t) prompt h of
             Inl _ \<Rightarrow> [] | Inr _ \<Rightarrow> [Generate prompt]))"
proof -
  have id: "requestIDFromCtx (WithTenant ctx t) = requestIDFromCtx ctx"
    by (simp add: requestIDFromCtx_def WithTenant_def)
  show ?thesis
  proof (cases "read_prompt sv env rq")
    case (Prompt prompt)
    then show ?thesis
      by (cases "guard_prompt sv env (requestIDFromCtx ctx) (t_id t) prompt h")
        (auto simp: handleComplete_def Let_def id guard_prompt_Inl  dest!: guard_prompt_Inr [THEN iffD1] split: sum.split)
  qed (simp add: handleComplete_def id)
qed

lemma handleStream_calls:
  assumes "stream_source (e_stream env)"
  shows "h_calls (handleStream sv env (WithTenant ctx t) rq h) = h_calls h @
     (case read_prompt sv env rq of
        Refuse _ _ \<Rightarrow> []
      | Prompt prompt \<Rightarrow>
          (case guard_prompt sv env (requestIDFromCtx ctx) (t_id t) prompt h of
             Inl _ \<Rightarrow> [] | Inr _ \<Rightarrow> [StreamTo prompt]))"
proof -
  have id: "requestIDFromCtx (WithTenant ctx t) = requestIDFromCtx ctx"
    by (simp add: requestIDFromCtx_def WithTenant_def)
  show ?thesis
  proof (cases "read_prompt sv env rq")
    case (Prompt prompt)
    then show ?thesis
      by (cases "guard_prompt sv env (requestIDFromCtx ctx) (t_id t) prompt h")
        (auto simp: handleStream_def Let_def id guard_prompt_Inl run_stream_sel [OF assms] dest!: guard_prompt_Inr [THEN iffD1] split: sum.split)
  qed (simp add: handleStream_def id)
qed

text \<open>The other routes, the metrics page and the errors of the mux, do not call the backend.\<close>

locale passive_routes =
  fixes other :: "string \<Rightarrow> 's hstate \<Rightarrow> 's hstate"
  assumes no_call: "h_calls (other path h) = h_calls h"

definition not_found :: "string \<Rightarrow> 's hstate \<Rightarrow> 's hstate" where
  "not_found path h = send (''404 page not found'' @ [NL]) (rw_WriteHeader 404 h)"

interpretation not_found: passive_routes not_found
  by unfold_locales (simp add: not_found_def)

lemma handleHealth_calls [simp]: "h_calls (handleHealth h) = h_calls h"
  by (simp add: handleHealth_def)

text \<open>The state in which the handler starts, when the request is admitted.\<close>

definition start_handler :: "server \<Rightarrow> 's hstate \<Rightarrow> 's hstate" where
  "start_handler sv h = (log_h sv LevelInfo ''request_started'' h)\<lparr>h_status := 200\<rparr>"

lemma start_handler_sel [simp]:
  "h_calls (start_handler sv h) = h_calls h" "h_store (start_handler sv h) = h_store h"
  "h_resp (start_handler sv h) = h_resp h"
  by (simp_all add: start_handler_def)

abbreviation first_ctx :: "'s env \<Rightarrow> request_ctx" where
  "first_ctx env \<equiv> \<lparr>ctx_request_id = Some (e_req_id env), ctx_tenant = None\<rparr>"

lemma serve_admit:
  "serve sv env rq h =
     (case admit sv env rq (first_ctx env) (set_header ''X-Request-ID'' (e_req_id env) h) of
        Inl h' \<Rightarrow> h'
      | Inr (ctx, tid, h') \<Rightarrow>
          (let g = log_h sv LevelInfo ''request_completed'' (mux sv env ctx rq (start_handler sv h'))
           in if exempt (rq_path rq) then g
              else emit [RequestsTotal [tid, itoa (h_status g), rq_path rq], RequestDuration [tid, rq_path rq]] g))"
  by (simp add: serve_def withMiddleware_def start_handler_def Let_def split: sum.split prod.split)

lemma serve_gate:
  assumes "stream_source (e_stream env)" and "passive_routes (e_other_routes env)"
  shows "h_calls (serve sv env rq h) = h_calls h @ calls_of (gate sv env rq (h_store h))"
proof (cases "admit sv env rq (first_ctx env) (set_header ''X-Request-ID'' (e_req_id env) h)")
  case (Inl h')
  from admit_Inl [OF Inl] admit_refused [OF Inl] show ?thesis
    by (auto simp: serve_admit Inl gate_def Let_def split: sum.split)
next
  case (Inr r)
  obtain ctx tid h' where "r = (ctx, tid, h')" by (cases r)
  note adm = Inr [unfolded this]
  note h' = admit_Inr [OF adm]
  have calls: "h_calls (serve sv env rq h) = h_calls (mux sv env ctx rq (start_handler sv h'))"
    by (simp add: serve_admit adm Let_def)
  have other: "h_calls (e_other_routes env p g) = h_calls g" for p g
    using assms(2) by (rule passive_routes.no_call)
  show ?thesis
  proof (cases "rq_path rq = ''/v1/complete'' \<or> rq_path rq = ''/v1/stream''")
    case False
    then have "gate sv env rq (h_store h) = None"
      by (auto simp: gate_def Let_def split: sum.split front.split)
    with False h' show ?thesis by (simp add: calls mux_def other)
  next
    case True
    then have "\<not> exempt (rq_path rq)" by (auto simp: exempt_def)
    with h' obtain t where t: "Authenticate (sv_auth sv) (rq_authorization rq) = Inr t"
      "rate_ok sv env (t_id t) (h_store h)" "quota_ok sv env (t_id t) (after_rate sv env (t_id t) (h_store h))"
      "ctx = WithTenant (first_ctx env) t" "h_store h' = after_rate sv env (t_id t) (h_store h)"
      "h_calls h' = h_calls h" by auto
    let ?g = "start_handler sv h'"
    have guard: "(\<exists>g. guard_prompt sv env i (t_id t) prompt ?g = Inr g) \<longleftrightarrow>
        Verdict (Scan (e_log2 env) (e_map_order env) prompt) \<noteq> VerdictBlock \<and>
        \<not> policy_blocks (evalPolicy sv env (t_id t) (Score (Scan (e_log2 env) (e_map_order env) prompt))
            ''mock-llm-v1'' (h_store h'))" for i prompt
      by (simp add: guard_prompt_Inr)
    show ?thesis
    proof (cases "read_prompt sv env rq")
      case (Prompt prompt)
      from True show ?thesis
        using guard [of "e_req_id env" prompt] unfolding calls mux_def t(4)
        by (cases "guard_prompt sv env (e_req_id env) (t_id t) prompt ?g")
          (auto simp: handleComplete_calls handleStream_calls [OF assms(1)] Prompt requestIDFromCtx_def
            gate_def Let_def t)
    qed (use True in \<open>auto simp: calls mux_def t handleComplete_calls handleStream_calls [OF assms(1)] gate_def Let_def\<close>)
  qed
qed

lemma served_emit [simp]: "served env i base S k (emit es h) = served env i base S k h"
  "served env i base S k (log_h sv lv msg h) = served env i base S k h"
  by (simp_all add: served_def)

text \<open>What the handler starts from when the decision is a call.\<close>

lemma gate_admitted:
  assumes g: "gate sv env rq (h_store h) = Some c"
  obtains t h1 prompt where "Authenticate (sv_auth sv) (rq_authorization rq) = Inr t"
    "read_prompt sv env rq = Prompt prompt"
    "c = (if rq_path rq = ''/v1/complete'' then Generate prompt else StreamTo prompt)"
    "rq_path rq = ''/v1/complete'' \<or> rq_path rq = ''/v1/stream''"
    "h_body h1 = h_body h \<and> rs_conn (h_resp h1) = rs_conn (h_resp h)" "h_store h1 = after_rate sv env (t_id t) (h_store h)"
    "guard_prompt sv env (e_req_id env) (t_id t) prompt h1 = Inr (log_h sv LevelInfo ''guardrail_scan'' h1)"
    "h_resp (serve sv env rq h) = h_resp (mux sv env (WithTenant (first_ctx env) t) rq h1)"
    "h_store (serve sv env rq h) = h_store (mux sv env (WithTenant (first_ctx env) t) rq h1)"
proof -
  obtain t prompt where t: "Authenticate (sv_auth sv) (rq_authorization rq) = Inr t"
    "rate_ok sv env (t_id t) (h_store h)" "quota_ok sv env (t_id t) (after_rate sv env (t_id t) (h_store h))"
    "read_prompt sv env rq = Prompt prompt"
    "Verdict (Scan (e_log2 env) (e_map_order env) prompt) \<noteq> VerdictBlock"
    "\<not> policy_blocks (evalPolicy sv env (t_id t) (Score (Scan (e_log2 env) (e_map_order env) prompt))
       ''mock-llm-v1'' (after_rate sv env (t_id t) (h_store h)))"
    and path: "rq_path rq = ''/v1/complete'' \<or> rq_path rq = ''/v1/stream''"
    and c: "c = (if rq_path rq = ''/v1/complete'' then Generate prompt else StreamTo prompt)"
    using g by (auto simp: gate_def Let_def split: sum.split_asm if_split_asm front.split_asm)
  from path have ex: "\<not> exempt (rq_path rq)" by (auto simp: exempt_def)
  let ?h = "set_header ''X-Request-ID'' (e_req_id env) h"
  obtain ctx tid h' where adm: "admit sv env rq (first_ctx env) ?h = Inr (ctx, tid, h')"
    using admit_refused [of sv env rq "first_ctx env" ?h] t(1-3)
    by (cases "admit sv env rq (first_ctx env) ?h") auto
  from admit_Inr [OF adm] ex t(1) have h': "h_body h' = h_body h" "rs_conn (h_resp h') = rs_conn (h_resp h)" "ctx = WithTenant (first_ctx env) t"
    "h_store h' = after_rate sv env (t_id t) (h_store h)" by auto
  show ?thesis
  proof (rule that [OF t(1,4) c path])
    show "guard_prompt sv env (e_req_id env) (t_id t) prompt (start_handler sv h') =
        Inr (log_h sv LevelInfo ''guardrail_scan'' (start_handler sv h'))"
      using t(5,6) by (simp add: guard_prompt_Inr h')
  qed (simp_all add: serve_admit adm ex h' Let_def)
qed

lemma first_id [simp]: "requestIDFromCtx (WithTenant (first_ctx env) t) = e_req_id env"
  by (simp add: requestIDFromCtx_def WithTenant_def)

lemma serve_stream:
  assumes "gate sv env rq (h_store h) = Some (StreamTo prompt)"
  obtains t h1 where "Authenticate (sv_auth sv) (rq_authorization rq) = Inr t" "h_body h1 = h_body h \<and> rs_conn (h_resp h1) = rs_conn (h_resp h)"
    "h_store h1 = after_rate sv env (t_id t) (h_store h)"
    "h_resp (serve sv env rq h) = h_resp (run_stream sv env (e_req_id env) (t_id t) prompt h1)"
    "h_store (serve sv env rq h) = h_store (run_stream sv env (e_req_id env) (t_id t) prompt h1)"
  using assms
proof (rule gate_admitted)
  fix t h1 p
  assume a: "StreamTo prompt = (if rq_path rq = ''/v1/complete'' then Generate p else StreamTo p)"
    "rq_path rq = ''/v1/complete'' \<or> rq_path rq = ''/v1/stream''"
    and f: "read_prompt sv env rq = Prompt p"
    "guard_prompt sv env (e_req_id env) (t_id t) p h1 = Inr (log_h sv LevelInfo ''guardrail_scan'' h1)"
    and t: "Authenticate (sv_auth sv) (rq_authorization rq) = Inr t" "h_body h1 = h_body h \<and> rs_conn (h_resp h1) = rs_conn (h_resp h)"
    "h_store h1 = after_rate sv env (t_id t) (h_store h)"
    "h_resp (serve sv env rq h) = h_resp (mux sv env (WithTenant (first_ctx env) t) rq h1)"
    "h_store (serve sv env rq h) = h_store (mux sv env (WithTenant (first_ctx env) t) rq h1)"
  from a have p: "p = prompt" "rq_path rq = ''/v1/stream''" by (auto split: if_split_asm)
  with f have "mux sv env (WithTenant (first_ctx env) t) rq h1 =
      run_stream sv env (e_req_id env) (t_id t) prompt (log_h sv LevelInfo ''guardrail_scan'' h1)"
    by (simp add: mux_def handleStream_def Let_def)
  with t that [of t "log_h sv LevelInfo ''guardrail_scan'' h1"] show thesis by simp
qed

lemma serve_complete:
  assumes "gate sv env rq (h_store h) = Some (Generate prompt)" and "e_generate env prompt = Inr r"
  obtains t h1 where "Authenticate (sv_auth sv) (rq_authorization rq) = Inr t"
    "h_store h1 = after_rate sv env (t_id t) (h_store h)"
    "h_store (serve sv env rq h) = h_store (add_usage sv env (t_id t) (charged_tokens r prompt) h1)"
  using assms(1)
proof (rule gate_admitted)
  fix t h1 p
  assume a: "Generate prompt = (if rq_path rq = ''/v1/complete'' then Generate p else StreamTo p)"
    and f: "read_prompt sv env rq = Prompt p"
    "guard_prompt sv env (e_req_id env) (t_id t) p h1 = Inr (log_h sv LevelInfo ''guardrail_scan'' h1)"
    and t: "Authenticate (sv_auth sv) (rq_authorization rq) = Inr t"
    "h_store h1 = after_rate sv env (t_id t) (h_store h)"
    "h_store (serve sv env rq h) = h_store (mux sv env (WithTenant (first_ctx env) t) rq h1)"
  from a have p: "p = prompt" "rq_path rq = ''/v1/complete''" by (auto split: if_split_asm)
  show thesis
    by (rule that [OF t(1), of "writeJSON 200 (JObject [(''request_id'', JString (e_req_id env)), (''response'', JString (gr_text r))])
          (log_h sv LevelInfo ''provider_response_ok''
            ((log_h sv LevelInfo ''guardrail_scan'' h1)\<lparr>h_calls := h_calls h1 @ [Generate prompt]\<rparr>))"])
      (use p f t assms(2) in \<open>simp_all add: mux_def handleComplete_def Let_def\<close>)
qed

lemma charged_tokens_pos: "1 \<le> charged_tokens r prompt"
  by (simp add: charged_tokens_def Let_def)

subsection \<open>An aborted stream\<close>

lemma ww_Write_abort:
  "ww_Write sv t ww p = (ww', n, err) \<Longrightarrow> ww_aborted ww' \<Longrightarrow> \<not> ww_aborted ww \<Longrightarrow> err = Some StreamAborted"
  by (auto simp: ww_Write_def Let_def split: prod.split_asm option.split_asm if_split_asm)

lemma io_copy_abort:
  "io_copy (ww_Write sv t) ww ps e = (ww', err) \<Longrightarrow> ww_aborted ww' \<Longrightarrow> \<not> ww_aborted ww \<Longrightarrow>
   err = Some (WriteError StreamAborted)"
proof (induction ps arbitrary: ww)
  case (Cons p ps)
  obtain ww1 n err1 where wr: "ww_Write sv t ww p = (ww1, n, err1)" by (cases "ww_Write sv t ww p") auto
  from ww_Write_abort [OF wr _ Cons.prems(3)] have "ww_aborted ww1 \<Longrightarrow> err1 = Some StreamAborted" .
  with Cons.prems Cons.IH [of ww1] Cons.IH [of ww] wr show ?case
    by (auto split: if_split_asm option.split_asm)
qed auto

subsection \<open>Without Redis\<close>

text \<open>The response after an operation is a function of the response before it.\<close>

lemma resp_eqs:
  "h_resp (set_header k v h) = Header_Set k v (h_resp h)"
  "h_resp (rw_WriteHeader c h) = http_WriteHeader c (h_resp h)"
  "h_resp (send p h) = fst (http_Write (h_resp h) p)"
  "h_resp (add_usage sv env t n h) = h_resp h"
  by (simp_all add: set_header_def rw_WriteHeader_def send_def hw_Write_def add_usage_def
      split: prod.split option.split sum.split)

definition no_redis :: "server \<Rightarrow> server" where
  "no_redis sv = sv\<lparr>sv_limiter := None, sv_quota := None\<rparr>"

definition links_lost :: "'s env \<Rightarrow> bool" where
  "links_lost env \<longleftrightarrow>
     list_all (\<lambda>l. l \<noteq> LinkUp) [e_link_allow env, e_link_check env, e_link_total env, e_link_add env]"

lemma evalPolicy_lost:
  "links_lost env \<Longrightarrow> evalPolicy sv env t risk model store = evalPolicy (no_redis sv) env t risk model store'"
  by (auto simp: links_lost_def evalPolicy_def no_redis_def quota_Total_def Let_def split: option.split link.split)

lemma check_lost:
  assumes "links_lost env"
  obtains g1 g2 where "check_rate sv env t h = Inr g1" "h_resp g1 = h_resp h" "h_calls g1 = h_calls h"
    "check_quota sv env t g1 = Inr g2" "h_resp g2 = h_resp h" "h_calls g2 = h_calls h"
proof -
  obtain e x where e: "e_link_allow env = LinkLost e x"
    using assms by (cases "e_link_allow env") (auto simp: links_lost_def)
  obtain e' x' where e': "e_link_check env = LinkLost e' x'"
    using assms by (cases "e_link_check env") (auto simp: links_lost_def)
  obtain g1 where g1: "check_rate sv env t h = Inr g1" "h_resp g1 = h_resp h" "h_calls g1 = h_calls h"
    by (cases "sv_limiter sv") (auto simp: check_rate_def Allow_def e case_prod_beta)
  moreover obtain g2 where "check_quota sv env t g1 = Inr g2" "h_resp g2 = h_resp g1" "h_calls g2 = h_calls g1"
    by (cases "sv_quota sv") (auto simp: check_quota_def quota_Check_def e')
  ultimately show ?thesis using that by metis
qed

text \<open>Two request states that show the client and the backend the same.\<close>

definition same_io :: "'s hstate \<Rightarrow> 's hstate \<Rightarrow> bool" where
  "same_io h h' \<longleftrightarrow> h_resp h = h_resp h' \<and> h_calls h = h_calls h'"

lemma admit_lost:
  assumes "links_lost env"
  shows "rel_sum same_io (\<lambda>(c, t, g) (c', t', g'). c = c' \<and> t = t' \<and> same_io g g')
    (admit sv env rq ctx h) (admit (no_redis sv) env rq ctx h)"
proof (cases "exempt (rq_path rq) \<or> (\<exists>e. Authenticate (sv_auth sv) (rq_authorization rq) = Inl e)")
  case True
  then show ?thesis
    by (auto simp: admit_def no_redis_def same_io_def writeError_def writeJSON_send resp_eqs)
next
  case False
  then obtain t where t: "Authenticate (sv_auth sv) (rq_authorization rq) = Inr t"
    by (cases "Authenticate (sv_auth sv) (rq_authorization rq)") auto
  obtain g1 g2 where "check_rate sv env (t_id t) h = Inr g1" "check_quota sv env (t_id t) g1 = Inr g2"
    "h_resp g2 = h_resp h" "h_calls g2 = h_calls h"
    using check_lost [OF assms, of sv "t_id t" h] by metis
  with False t show ?thesis
    by (simp add: admit_def no_redis_def same_io_def check_rate_def check_quota_def)
qed

lemma guard_prompt_lost:
  assumes "links_lost env" and "same_io h h'"
  shows "rel_sum same_io same_io (guard_prompt sv env i t prompt h) (guard_prompt (no_redis sv) env i t prompt h')"
  using assms evalPolicy_lost [OF assms(1), of sv t _ _ "h_store h" "h_store h'"]
  by (auto simp: guard_prompt_def same_io_def writeJSON_send resp_eqs Let_def)

lemma read_prompt_no_redis [simp]: "read_prompt (no_redis sv) env rq = read_prompt sv env rq"
  by (simp add: read_prompt_def no_redis_def)

lemma handleComplete_lost:
  assumes "links_lost env" and "same_io h h'"
  shows "same_io (handleComplete sv env ctx rq h) (handleComplete (no_redis sv) env ctx rq h')"
proof (cases "read_prompt sv env rq")
  case (Refuse status code)
  with assms(2) show ?thesis
    by (simp add: handleComplete_def same_io_def writeError_def writeJSON_send resp_eqs)
next
  case (Prompt prompt)
  from guard_prompt_lost [OF assms, of sv "requestIDFromCtx ctx" "t_id (fst (TenantFromCtx ctx))" prompt]
  show ?thesis
    by (cases "guard_prompt sv env (requestIDFromCtx ctx) (t_id (fst (TenantFromCtx ctx))) prompt h";
        cases "guard_prompt (no_redis sv) env (requestIDFromCtx ctx) (t_id (fst (TenantFromCtx ctx))) prompt h'")
      (simp_all add: handleComplete_def Prompt same_io_def writeError_def writeJSON_send resp_eqs Let_def split: sum.split)
qed

lemma serve_complete_lost:
  assumes "links_lost env" and "rq_path rq = ''/v1/complete''"
  shows "same_io (serve sv env rq h) (serve (no_redis sv) env rq h)"
proof -
  let ?h = "set_header ''X-Request-ID'' (e_req_id env) h"
  have ex: "\<not> exempt (rq_path rq)" using assms(2) by (simp add: exempt_def)
  have run: "same_io (handleComplete sv env c rq (start_handler sv g))
      (handleComplete (no_redis sv) env c rq (start_handler (no_redis sv) g'))" if "same_io g g'" for c g g'
    by (rule handleComplete_lost [OF assms(1)]) (use that in \<open>simp add: same_io_def\<close>)
  from admit_lost [OF assms(1), of sv rq "first_ctx env" ?h] show ?thesis
    by (cases "admit sv env rq (first_ctx env) ?h"; cases "admit (no_redis sv) env rq (first_ctx env) ?h")
      (use run in \<open>auto simp: serve_admit ex mux_def assms(2) same_io_def Let_def\<close>)
qed

lemma gate_other_tenant:
  assumes "Authenticate (sv_auth sv) (rq_authorization rq) = Inr t"
    and "e_bundle env = Some b" and "b_tenant_id b \<noteq> t_id t"
  shows "gate sv env rq store = gate sv (env\<lparr>e_bundle := None\<rparr>) rq store"
proof -
  have "evalPolicy sv env (t_id t) r m st = evalPolicy sv (env\<lparr>e_bundle := None\<rparr>) (t_id t) r m st" for r m st
    using assms(2,3) by (simp add: evalPolicy_def Let_def)
  moreover have "rate_ok sv (env\<lparr>e_bundle := None\<rparr>) tid st = rate_ok sv env tid st"
    "quota_ok sv (env\<lparr>e_bundle := None\<rparr>) tid st = quota_ok sv env tid st"
    "after_rate sv (env\<lparr>e_bundle := None\<rparr>) tid st = after_rate sv env tid st" for tid st
    by (simp_all add: rate_ok_def quota_ok_def after_rate_def split: option.split)
  moreover have "read_prompt sv (env\<lparr>e_bundle := None\<rparr>) rq = read_prompt sv env rq"
    by (simp add: read_prompt_def Let_def)
  ultimately show ?thesis
    using assms(1) by (cases "read_prompt sv env rq") (simp_all add: gate_def Let_def)
qed

lemma serve_fragment:
  assumes "chunk_source (e_stream env) chunks" and "gate sv env rq (h_store h) = Some (StreamTo prompt)"
    and "concat (chunks prompt) = a @ f @ b" and "unsafe_fragment f"
    and "length f \<le> win_size (NewWindow (cfg_WindowSize (sv_cfg sv))) + 1"
  shows "\<exists>k. served env (e_req_id env) (h_body h) a k (serve sv env rq h)"
proof -
  let ?m = "win_size (NewWindow (cfg_WindowSize (sv_cfg sv)))"
  obtain t :: tenant and h1 where h1: "h_body h1 = h_body h"
    "h_resp (serve sv env rq h) = h_resp (run_stream sv env (e_req_id env) (t_id t) prompt h1)"
    using serve_stream [OF assms(2)] by blast
  obtain T U k where k: "concat (chunks prompt) = T @ U" "k \<le> length T" "released ?m T k"
    "served env (e_req_id env) (h_body h1) T k (run_stream sv env (e_req_id env) (t_id t) prompt h1)"
    "U = [] \<or> k \<le> length T - ?m"
    using run_stream_served [OF assms(1)] by blast
  have le: "k \<le> length a"
    using served_before_fragment [OF _ k(3,2) assms(4,5) k(5), of a b] k(1) assms(3) by simp
  have "take k T = take k (T @ U)" using k(2) by simp
  also have "T @ U = a @ f @ b" using k(1) assms(3) by simp
  also have "take k (a @ f @ b) = take k a" using le by simp
  finally show ?thesis using k(4) h1 by (auto simp: served_def)
qed

subsection \<open>A concrete gateway\<close>

text \<open>
  A server with the default keys, a Redis store in memory, and a backend whose stream
  contains the e-mail address of \<open>split_email\<close>; the body of a request is the prompt itself.
\<close>

definition demo_config :: config where
  "demo_config = (Load (\<lambda>_. []))\<lparr>cfg_MaxBodyBytes := 1024, cfg_WindowSize := 40\<rparr>"

definition demo_server :: server where
  "demo_server = \<lparr>sv_cfg = demo_config, sv_level = LevelInfo,
     sv_auth = DefaultStore, sv_limiter = None, sv_quota = Some \<lparr>q_limit = 100\<rparr>\<rparr>"

definition demo_env :: "link \<Rightarrow> (string \<Rightarrow> (mem_store windowWriter, ww_error) writer \<Rightarrow> mem_store windowWriter \<Rightarrow>
    mem_store windowWriter \<times> ww_error provider_error option) \<Rightarrow> mem_store env" where
  "demo_env lk stream_to =
     \<lparr>e_req_id = ''r1'', e_ops = mem_redis, e_now = 0, e_day_check = ''d'', e_day_total = ''d'', e_day_add = ''d'',
      e_link_allow = lk, e_link_check = lk, e_link_total = lk, e_link_add = lk,
      e_printable = (\<lambda>_. True), e_log2 = (\<lambda>_. 0),
      e_map_order = (\<lambda>f. f), e_bundle = None,
      e_generate = (\<lambda>p. Inr \<lparr>gr_text = p, gr_input_tokens = 3, gr_output_tokens = 4, gr_model = ''m''\<rparr>),
      e_stream = stream_to, e_error_text = (\<lambda>_. ''error''), e_other_routes = not_found\<rparr>"

definition demo_body :: bytes where
  "demo_body = json_encode (JObject [(''prompt'', JString ''Hi'')])"

lemma decode_encoded_prompt:
  assumes "nat mx = length (json_encode (JObject [(''prompt'', JString prompt)])) + k"
  shows "decode_request mx (json_encode (JObject [(''prompt'', JString prompt)]) @ rest) = Inr (valid_text prompt)"
proof -
  let ?v = "JObject [(''prompt'', JString prompt)]"
  have "take (nat mx) (json_encode ?v @ rest) = json_encode ?v @ take k rest" by (simp only: assms take_append) simp
  moreover have "valid_text ''prompt'' = ''prompt''" by (rule valid_text_ascii) code_simp
  moreover have "decode_into store_request [] (json_encode ?v @ take k rest) e =
      (let (x, ok) = store_struct store_request (valid_json ?v) [] in if ok then Inr x else Inl TypeError)" for e :: "unit option"
    by (rule decode_into_encode) simp_all
  ultimately show ?thesis
    by (simp only: decode_request_def) (simp add: store_struct_def store_request_def store_string_def)
qed

definition demo_request :: "string \<Rightarrow> request" where
  "demo_request path = \<lparr>rq_method = ''POST'', rq_path = path, rq_authorization = ''Bearer key-dev-local'',
     rq_content_length = 15, rq_body = demo_body\<rparr>"

definition demo_state :: "mem_store hstate" where
  "demo_state = \<lparr>h_resp = \<lparr>rs_headers = (\<lambda>_. None), rs_sent = None, rs_body = [], rs_conn = None\<rparr>,
     h_status = 200, h_events = [], h_store = mem_empty, h_calls = []\<rparr>"

text \<open>
  A backend that streams an address in three deltas, and one that sends the events of a
  greeting and an address as they are to reach the client.
\<close>

definition demo_deltas :: "bytes list" where
  "demo_deltas = [''Hi'', ''some@ma'', ''il.ex'', ''ample.com'']"

definition demo_response :: http_response where
  "demo_response =
     \<lparr>hr_status = 200, hr_reads = map (\<lambda>d. sse_event (delta_chunk d)) demo_deltas @ [sse_done], hr_error = None\<rparr>"

definition demo_http :: http_client where
  "demo_http = (\<lambda>_. Response demo_response)"

definition demo_mock_http :: http_client where
  "demo_mock_http = (\<lambda>_. Response
     \<lparr>hr_status = 200,
      hr_reads = [sse_event ''Hi'', ''data: '' @ take 9 split_email, drop 9 split_email @ [NL, NL] @ sse_done],
      hr_error = None\<rparr>)"

definition demo_oai :: oai_adapter where
  "demo_oai = NewOpenAICompatAdapter ''http://x/v1'' ''k'' ''m''"

abbreviation demo_stream_env :: "mem_store env" where
  "demo_stream_env \<equiv> demo_env LinkUp (oai_StreamTo demo_http demo_oai)"

abbreviation demo_lost_env :: "mem_store env" where
  "demo_lost_env \<equiv> demo_env (LinkLost ''EOF'' True) (oai_StreamTo demo_http demo_oai)"

lemma demo_chunks: "oai_chunks demo_http demo_oai ''Hi'' = map sse_event demo_deltas @ [sse_done]"
proof -
  have "length (delta_chunk d) < 65000 \<and> NL \<notin> set (delta_chunk d) \<and> is_ascii d \<and> d \<noteq> []" if "d \<in> set demo_deltas" for d
  proof -
    have "list_all (\<lambda>d. length (delta_chunk d) < 100 \<and> NL \<notin> set (delta_chunk d) \<and> is_ascii d \<and> d \<noteq> []) demo_deltas"
      by code_simp
    with that show ?thesis by (fastforce simp: list_all_iff)
  qed
  then have ok: "list_all event_payload (map delta_chunk demo_deltas)"
    and ds: "deltas (map delta_chunk demo_deltas) = demo_deltas"
    by (auto simp: list_all_iff event_payload_chunk deltas_def valid_text_ascii intro!: map_idI filter_True cong: map_cong)
  have "oai_chunks demo_http demo_oai ''Hi'' = map sse_event (deltas (map delta_chunk demo_deltas)) @ [sse_done]"
    by (rule oai_chunks_events [where rest = "[]" and resp = demo_response])
      (simp_all add: demo_http_def demo_response_def ok comp_def)
  then show ?thesis by (simp only: ds)
qed

lemma demo_auth: "Authenticate DefaultStore ''Bearer key-dev-local'' = Inr \<lparr>t_id = ''dev'', t_name = ''Local Dev''\<rparr>"
  by code_simp

lemma demo_scan: "Verdict (Scan lg ord ''Hi'') \<noteq> VerdictBlock"
proof -
  have "\<not> re_test keyword_patterns (runes ''Hi'')" "\<not> re_test structural_patterns (runes ''Hi'')"
    by code_simp+
  then show ?thesis using block_pattern by blast
qed

lemma demo_decode: "15 \<le> mx \<Longrightarrow> decode_request mx demo_body = Inr ''Hi''"
proof -
  assume mx: "15 \<le> mx"
  have "length demo_body = 15" "is_ascii ''Hi''" by code_simp+
  with mx decode_encoded_prompt [of mx "''Hi''" "nat mx - 15" "[]"] show ?thesis
    by (simp add: demo_body_def valid_text_ascii)
qed

lemma demo_gate_prompt:
  assumes "path = ''/v1/complete'' \<or> path = ''/v1/stream''"
    and "decode_request 1024 body = Inr p" and "p \<noteq> []" and "\<And>lg ord. Verdict (Scan lg ord p) \<noteq> VerdictBlock"
  shows "gate demo_server (demo_env LinkUp st) (demo_request path\<lparr>rq_body := body\<rparr>) (h_store demo_state) =
    Some (if path = ''/v1/complete'' then Generate p else StreamTo p)"
proof -
  obtain rq where rq: "rq = demo_request path\<lparr>rq_body := body\<rparr>" by blast
  have quota: "quota_ok demo_server (demo_env LinkUp st) ''dev'' mem_empty"
    by (simp add: quota_ok_def demo_server_def demo_env_def quota_Check_def mem_redis_def mem_empty_def)
  have prompt: "read_prompt demo_server (demo_env LinkUp st) rq = Prompt p"
    using assms(2,3)
    by (simp add: rq read_prompt_def demo_server_def demo_config_def demo_env_def demo_request_def)
  have policy: "\<not> policy_blocks (evalPolicy demo_server (demo_env LinkUp st) t r m store)" for t r m store
    by (simp add: evalPolicy_def demo_env_def policy_blocks_def no_verdict_def)
  have auth: "Authenticate (sv_auth demo_server) (rq_authorization rq) =
      Inr \<lparr>t_id = ''dev'', t_name = ''Local Dev''\<rparr>"
    by (simp add: rq demo_server_def demo_request_def demo_auth)
  have no_limiter: "sv_limiter demo_server = None" by (simp add: demo_server_def)
  have path: "rq_path rq = path" and store: "h_store demo_state = mem_empty"
    by (simp_all add: rq demo_request_def demo_state_def)
  from assms quota policy show ?thesis
    unfolding rq [symmetric]
    by (auto simp: gate_def auth rate_ok_def after_rate_def no_limiter prompt Let_def path store)
qed

lemma demo_gate:
  assumes "path = ''/v1/complete'' \<or> path = ''/v1/stream''"
  shows "gate demo_server (demo_env LinkUp st) (demo_request path) (h_store demo_state) =
    Some (if path = ''/v1/complete'' then Generate ''Hi'' else StreamTo ''Hi'')"
proof -
  have "demo_request path = demo_request path\<lparr>rq_body := demo_body\<rparr>" by (simp add: demo_request_def)
  with demo_gate_prompt [OF assms, of demo_body "''Hi''" st] demo_scan demo_decode [of 1024] show ?thesis by simp
qed

subsection \<open>Properties\<close>

text \<open>
  C1: the backend is called exactly when every check passes.  The calls a request makes are
  those the decision \<open>gate\<close> gives: none unless the request carries a known key, the
  limiter and the quota do not refuse it, it is a POST with a body in bounds and a prompt
  that the input scan and the tenant's policy let through; otherwise exactly one call,
  with the prompt the client sent.
\<close>

theorem backend_called_iff_gate:
  assumes "stream_source (e_stream env)" and "passive_routes (e_other_routes env)"
  shows "h_calls (serve sv env rq h) = h_calls h @ calls_of (gate sv env rq (h_store h))"
  using assms by (rule serve_gate)

lemma backend_called_iff_gate_witness:
  "h_calls (serve demo_server demo_stream_env (demo_request ''/v1/stream'') demo_state) =
     h_calls demo_state @ calls_of (gate demo_server demo_stream_env (demo_request ''/v1/stream'') (h_store demo_state)) \<and>
   gate demo_server demo_stream_env (demo_request ''/v1/stream'') (h_store demo_state) = Some (StreamTo ''Hi'')"
proof
  show "h_calls (serve demo_server demo_stream_env (demo_request ''/v1/stream'') demo_state) =
     h_calls demo_state @ calls_of (gate demo_server demo_stream_env (demo_request ''/v1/stream'') (h_store demo_state))"
    by (rule backend_called_iff_gate)
      (simp_all add: demo_env_def oai.stream_source_axioms not_found.passive_routes_axioms)
qed (simp add: demo_gate)



text \<open>
  C18: only completions are charged.  A successful completion adds its tokens, at least one, to
  the tenant's daily counter; a stream leaves the Redis store as the rate limiter left it,
  however many tokens the backend produced.
\<close>

theorem only_completions_charged:
  assumes "stream_source (e_stream env)" and "sv_quota sv = Some q"
    and "Authenticate (sv_auth sv) (rq_authorization rq) = Inr t"
  shows "(gate sv env rq (h_store h) = Some (StreamTo prompt) \<longrightarrow>
      h_store (serve sv env rq h) = after_rate sv env (t_id t) (h_store h)) \<and>
    (gate sv env rq (h_store h) = Some (Generate prompt) \<and> e_generate env prompt = Inr r \<longrightarrow>
      1 \<le> charged_tokens r prompt \<and>
      h_store (serve sv env rq h) = fst (quota_Add (e_ops env) q (t_id t) (e_day_add env)
        (charged_tokens r prompt) (e_link_add env) (after_rate sv env (t_id t) (h_store h))))"
proof (intro conjI impI, goal_cases)
  case 1
  then show ?case
    by (rule serve_stream) (use assms run_stream_sel [OF assms(1)] in auto)
next
  case 2
  show ?case by (rule charged_tokens_pos)
next
  case 3
  then have "gate sv env rq (h_store h) = Some (Generate prompt)" "e_generate env prompt = Inr r" by auto
  then show ?case
    by (rule serve_complete) (use assms(2,3) in \<open>auto simp: add_usage_def split: prod.split sum.split\<close>)
qed

abbreviation demo_result :: generate_result where
  "demo_result \<equiv> \<lparr>gr_text = ''Hi'', gr_input_tokens = 3, gr_output_tokens = 4, gr_model = ''m''\<rparr>"

lemma only_completions_charged_witness:
  "h_store (serve demo_server demo_stream_env (demo_request ''/v1/stream'') demo_state) =
     after_rate demo_server demo_stream_env ''dev'' (h_store demo_state) \<and>
   1 \<le> charged_tokens demo_result ''Hi'' \<and>
   h_store (serve demo_server demo_stream_env (demo_request ''/v1/complete'') demo_state) =
     fst (quota_Add mem_redis \<lparr>q_limit = 100\<rparr> ''dev'' ''d'' (charged_tokens demo_result ''Hi'')
       LinkUp (after_rate demo_server demo_stream_env ''dev'' (h_store demo_state)))"
proof -
  have demo: "stream_source (e_stream demo_stream_env)" "sv_quota demo_server = Some \<lparr>q_limit = 100\<rparr>"
    "Authenticate (sv_auth demo_server) (rq_authorization (demo_request path)) =
       Inr \<lparr>t_id = ''dev'', t_name = ''Local Dev''\<rparr>"
    "e_generate demo_stream_env ''Hi'' = Inr demo_result" "e_ops demo_stream_env = mem_redis"
    "e_day_add demo_stream_env = ''d''" "e_link_add demo_stream_env = LinkUp" for path
    by (simp_all add: demo_env_def demo_server_def demo_request_def demo_auth oai.stream_source_axioms)
  note use = only_completions_charged [OF demo(1-3), where prompt = "''Hi''" and r = demo_result and h = demo_state]
  from use [of "''/v1/stream''"] use [of "''/v1/complete''"] show ?thesis
    by (simp add: demo_gate demo(4-))
qed


abbreviation demo_run :: "mem_store windowWriter \<times> ww_error provider_error option" where
  "demo_run \<equiv> mock_StreamTo demo_mock_http \<lparr>ma_base_url = ''http://x''\<rparr> ''Hi'' (ww_Write demo_server ''dev'')
     (new_windowWriter demo_server demo_state)"


text \<open>
  A policy binds its own tenant only.  For a request of any other tenant the decision is
  the one without a policy, whatever rules the file holds.
\<close>

theorem policy_is_per_tenant:
  assumes "Authenticate (sv_auth sv) (rq_authorization rq) = Inr t"
    and "e_bundle env = Some b" and "b_tenant_id b \<noteq> t_id t"
  shows "gate sv env rq store = gate sv (env\<lparr>e_bundle := None\<rparr>) rq store"
  by (rule gate_other_tenant [OF assms])

definition dev_bundle :: policy_bundle where
  "dev_bundle = \<lparr>b_tenant_id = ''dev'', b_rules = []\<rparr>"

lemma policy_is_per_tenant_witness:
  "gate demo_server (demo_stream_env\<lparr>e_bundle := Some dev_bundle\<rparr>)
     (demo_request ''/v1/complete''\<lparr>rq_authorization := ''Bearer key-acme-1234''\<rparr>) mem_empty =
   gate demo_server ((demo_stream_env\<lparr>e_bundle := Some dev_bundle\<rparr>)\<lparr>e_bundle := None\<rparr>)
     (demo_request ''/v1/complete''\<lparr>rq_authorization := ''Bearer key-acme-1234''\<rparr>) mem_empty"
proof (rule policy_is_per_tenant [where b = dev_bundle])
  have "Authenticate DefaultStore ''Bearer key-acme-1234'' = Inr \<lparr>t_id = ''acme-corp'', t_name = ''Acme Corp''\<rparr>"
    by code_simp
  then show "Authenticate (sv_auth demo_server)
      (rq_authorization (demo_request ''/v1/complete''\<lparr>rq_authorization := ''Bearer key-acme-1234''\<rparr>)) =
      Inr \<lparr>t_id = ''acme-corp'', t_name = ''Acme Corp''\<rparr>"
    by (simp add: demo_server_def)
qed (simp_all add: dev_bundle_def)

text \<open>
  C17: the gateway fails open.  When every Redis call of a request fails, executed on the
  server or not, a completion gives the client the same response and makes the same call
  to the backend as on a gateway without Redis: neither the rate limit nor the quota holds.
\<close>

theorem redis_failure_fails_open:
  assumes "links_lost env" and "rq_path rq = ''/v1/complete''"
  shows "h_resp (serve sv env rq h) = h_resp (serve (no_redis sv) env rq h) \<and>
    h_calls (serve sv env rq h) = h_calls (serve (no_redis sv) env rq h)"
  using serve_complete_lost [OF assms] by (simp add: same_io_def)

lemma redis_failure_fails_open_witness:
  "h_resp (serve demo_server demo_lost_env (demo_request ''/v1/complete'') demo_state) =
     h_resp (serve (no_redis demo_server) demo_lost_env (demo_request ''/v1/complete'') demo_state) \<and>
   h_calls (serve demo_server demo_lost_env (demo_request ''/v1/complete'') demo_state) =
     h_calls (serve (no_redis demo_server) demo_lost_env (demo_request ''/v1/complete'') demo_state)"
  by (rule redis_failure_fails_open) (simp_all add: links_lost_def demo_env_def demo_request_def)

end
