(* ===== verification/Gateway_Startup.thy ===== *)
theory Gateway_Startup
  imports Gateway_Safety
begin

text \<open>
  The construction of the server: \<open>New\<close> of \<open>internal/gateway/gateway.go\<close> on the configuration
  of \<open>config.Load\<close>.  The outcome of the connection to Redis, the policy file and the set up
  of its watcher are inputs.
\<close>

text \<open>
  A started gateway: the server of theory \<open>Gateway\<close>, the backend, the policy watcher if
  there is one, and the log.  \<open>policyCache\<close> is configured exactly when Redis is connected.
\<close>

record startup =
  su_server :: server
  su_llm :: adapter
  su_policy :: "watcher option"
  su_log :: "event list"

definition NewMockAdapter :: "string \<Rightarrow> adapter" where
  "NewMockAdapter base_url = Mock \<lparr>ma_base_url = base_url\<rparr>"

definition NewLimiter :: "int \<Rightarrow> int \<Rightarrow> limiter" where
  "NewLimiter limit window = \<lparr>lim_limit = limit, lim_window = window\<rparr>"

definition NewQuotaCounter :: "int \<Rightarrow> quota" where
  "NewQuotaCounter daily_limit = \<lparr>q_limit = daily_limit\<rparr>"

definition Minute :: int where "Minute = 60 * 1000000000"

text \<open>The three parts of \<open>New\<close>, each with its log entries: backend, Redis, policy.\<close>

definition start_llm :: "unicode_tables \<Rightarrow> config \<Rightarrow> level \<Rightarrow> adapter \<times> event list" where
  "start_llm u cfg lv =
     (case provider_New u cfg of
        Inl e \<Rightarrow> (NewMockAdapter (cfg_MockLLMAddr cfg),
                  log_event lv LevelError ''provider_init_failed'' @ log_event lv LevelInfo ''provider_selected'')
      | Inr a \<Rightarrow> (a, log_event lv LevelInfo ''provider_selected''))"

definition start_redis ::
  "config \<Rightarrow> level \<Rightarrow> string + unit \<Rightarrow> (limiter \<times> quota) option \<times> event list" where
  "start_redis cfg lv rdb =
     (if cfg_RedisAddr cfg = [] then (None, [])
      else
        (case rdb of
           Inl e \<Rightarrow> (None, log_event lv LevelError ''redis_connect_failed'')
         | Inr _ \<Rightarrow>
             (Some (NewLimiter (cfg_RateLimitPerMinute cfg) Minute, NewQuotaCounter (cfg_DailyTokenQuota cfg)),
              log_event lv LevelInfo ''redis_connected'')))"

definition start_policy ::
  "unicode_tables \<Rightarrow> config \<Rightarrow> level \<Rightarrow> read_result \<Rightarrow> cache_outcome \<Rightarrow> fs_setup \<Rightarrow> watcher option \<times> event list" where
  "start_policy u cfg lv file cache fs =
     (if cfg_PolicyFile cfg = [] then (None, [])
      else
        (case NewWatcher u lv file cache fs of
           Inl e \<Rightarrow> (None, log_event lv LevelError ''policy_load_failed'')
         | Inr w \<Rightarrow> (Some w, w_log w)))"

definition gateway_New ::
  "unicode_tables \<Rightarrow> config \<Rightarrow> level \<Rightarrow> string + unit \<Rightarrow> read_result \<Rightarrow> cache_outcome \<Rightarrow> fs_setup \<Rightarrow> startup" where
  "gateway_New u cfg lv rdb file cache fs =
     (let (llm, log1) = start_llm u cfg lv;
          (rl, log2) = start_redis cfg lv rdb;
          (policy, log3) = start_policy u cfg lv file (if rl = None then NoCache else cache) fs
      in \<lparr>su_server = \<lparr>sv_cfg = cfg, sv_level = lv, sv_auth = DefaultStore,
                       sv_limiter = map_option fst rl, sv_quota = map_option snd rl\<rparr>,
          su_llm = llm, su_policy = policy, su_log = log1 @ log2 @ log3\<rparr>)"

lemma gateway_New_sel:
  "sv_auth (su_server (gateway_New u cfg lv rdb file cache fs)) = DefaultStore"
  "sv_cfg (su_server (gateway_New u cfg lv rdb file cache fs)) = cfg"
  "sv_limiter (su_server (gateway_New u cfg lv rdb file cache fs)) = map_option fst (fst (start_redis cfg lv rdb))"
  "sv_quota (su_server (gateway_New u cfg lv rdb file cache fs)) = map_option snd (fst (start_redis cfg lv rdb))"
  "su_policy (gateway_New u cfg lv rdb file cache fs) =
     fst (start_policy u cfg lv file (if fst (start_redis cfg lv rdb) = None then NoCache else cache) fs)"
  by (simp_all add: gateway_New_def case_prod_beta)

text \<open>The environment of a request on a started gateway: its backend and its active bundle.\<close>

definition request_env ::
  "startup \<Rightarrow> http_client \<Rightarrow> 's env \<Rightarrow> 's env" where
  "request_env su http env =
     env\<lparr>e_bundle := map_option w_bundle (su_policy su),
         e_generate := Adapter_Generate http (su_llm su),
         e_stream := Adapter_StreamTo http (su_llm su)\<rparr>"

lemma request_env_stream: "chunk_source (e_stream (request_env su http env)) (adapter_chunks http (su_llm su))"
  by (simp add: request_env_def adapter.chunk_source_axioms)

subsection \<open>Properties\<close>

lemma degraded_start:
  assumes "cfg_RedisAddr cfg = [] \<or> (\<exists>e. rdb = Inl e)" and "cfg_PolicyFile cfg = [] \<or> (\<exists>e. load u file = Inl e)"
    and "su = gateway_New u cfg lv rdb file cache fs"
  shows "sv_auth (su_server su) = DefaultStore" "sv_limiter (su_server su) = None"
    "sv_quota (su_server su) = None" "su_policy su = None"
proof -
  have "fst (start_redis cfg lv rdb) = None" using assms(1) by (auto simp: start_redis_def)
  moreover have "fst (start_policy u cfg lv file c fs) = None" for c
    using assms(2) by (auto simp: start_policy_def NewWatcher_def)
  ultimately show "sv_auth (su_server su) = DefaultStore" "sv_limiter (su_server su) = None"
    "sv_quota (su_server su) = None" "su_policy su = None"
    by (simp_all add: assms(3) gateway_New_sel)
qed

text \<open>
  C38: the gateway also starts unprotected.  When Redis cannot be reached at start, or is not
  configured, and the policy file cannot be read, parsed or compiled, the gateway serves
  all the same: every request with a known key and a prompt the input scan does not block
  goes to the backend, without a rate limit, a quota or a policy.
\<close>

theorem degraded_start_serves:
  assumes "cfg_RedisAddr cfg = [] \<or> (\<exists>e. rdb = Inl e)" and "cfg_PolicyFile cfg = [] \<or> (\<exists>e. load u file = Inl e)"
    and "su = gateway_New u cfg lv rdb file cache fs"
    and "Authenticate DefaultStore (rq_authorization rq) = Inr t"
    and "read_prompt (su_server su) (request_env su http env) rq = Prompt prompt"
    and "Verdict (Scan (e_log2 env) (e_map_order env) prompt) \<noteq> VerdictBlock"
    and "rq_path rq = ''/v1/complete'' \<or> rq_path rq = ''/v1/stream''"
  shows "gate (su_server su) (request_env su http env) rq store =
    Some (if rq_path rq = ''/v1/complete'' then Generate prompt else StreamTo prompt)"
proof -
  note start = degraded_start [OF assms(1-3)]
  have "\<not> policy_blocks (evalPolicy sv (request_env su http env) tid r m st)" for sv tid r m st
    by (simp add: evalPolicy_def policy_blocks_def no_verdict_def request_env_def start)
  moreover have "rate_ok (su_server su) env' tid st" "quota_ok (su_server su) env' tid st" for env' :: "'a env" and tid st
    by (simp_all add: rate_ok_def quota_ok_def start)
  moreover have "e_log2 (request_env su http env) = e_log2 env"
    "e_map_order (request_env su http env) = e_map_order env"
    by (simp_all add: request_env_def)
  ultimately show ?thesis
    using assms(4-7) by (auto simp: gate_def start Let_def)
qed

definition demo_start :: startup where
  "demo_start = gateway_New \<lparr>uni_lower = id, uni_upper = id\<rparr> (Load (\<lambda>_. [])) LevelInfo (Inl ''refused'')
     (Inl ''no such file'') NoCache SetupOK"

lemma degraded_start_serves_witness:
  "gate (su_server demo_start) (request_env demo_start demo_http demo_stream_env)
     (demo_request ''/v1/stream'') mem_empty = Some (StreamTo ''Hi'')"
proof -
  have cfg: "sv_cfg (su_server demo_start) = Load (\<lambda>_. [])"
    by (simp add: demo_start_def gateway_New_sel)
  have "gate (su_server demo_start) (request_env demo_start demo_http demo_stream_env)
      (demo_request ''/v1/stream'') mem_empty =
    Some (if rq_path (demo_request ''/v1/stream'') = ''/v1/complete'' then Generate ''Hi'' else StreamTo ''Hi'')"
  proof (rule degraded_start_serves [OF _ _ demo_start_def])
    show "read_prompt (su_server demo_start) (request_env demo_start demo_http demo_stream_env)
        (demo_request ''/v1/stream'') = Prompt ''Hi''"
      using demo_decode [of 524288]
      by (simp add: read_prompt_def cfg Load_def getEnvInt64_def request_env_def demo_env_def demo_request_def)
  qed (simp_all add: load_def demo_request_def demo_auth demo_scan)
  then show ?thesis by (simp add: demo_request_def)
qed

end
