(* ===== verification/Gateway_Answers.thy ===== *)
theory Gateway_Answers
  imports Gateway_Safety
begin

text \<open>
  The status every request is answered with, \<open>internal/gateway/gateway.go\<close> as a whole: one
  decision on the request, its checks and the outcome of the backend, and the proof that the
  middleware and the handlers always send a response with that status.
\<close>

subsection \<open>The status line\<close>

definition status_of :: "'s hstate \<Rightarrow> int option" where
  "status_of h = map_option fst (rs_sent (h_resp h))"

lemma status_of_resp [simp]:
  "status_of (emit es h) = status_of h" "status_of (log_h sv lv msg h) = status_of h"
  "status_of (h\<lparr>h_store := st\<rparr>) = status_of h" "status_of (h\<lparr>h_calls := cs\<rparr>) = status_of h"
  "status_of (h\<lparr>h_status := c\<rparr>) = status_of h"
  by (simp_all add: status_of_def)

text \<open>The status a call leaves that writes \<open>c\<close> unless one was sent before.\<close>

definition keep_status :: "int \<Rightarrow> int option \<Rightarrow> int option" where
  "keep_status c st = (case st of None \<Rightarrow> Some c | Some s \<Rightarrow> Some s)"

lemma keep_status_simps [simp]: "keep_status c None = Some c" "keep_status c (Some s) = Some s"
  by (simp_all add: keep_status_def)

lemma status_set_header [simp]: "status_of (set_header k v h) = status_of h"
  by (simp add: status_of_def set_header_def Header_Set_def)

lemma status_WriteHeader [simp]: "status_of (rw_WriteHeader c h) = keep_status c (status_of h)"
  by (simp add: status_of_def rw_WriteHeader_def http_WriteHeader_def split: option.split)

lemma status_hw_Write: "status_of (fst (hw_Write h p)) = keep_status 200 (status_of h)"
  by (simp add: status_of_def hw_Write_def http_Write_def http_WriteHeader_def Let_def split: option.split prod.split)

lemma status_send [simp]: "status_of (send p h) = keep_status 200 (status_of h)"
  by (simp only: send_def status_hw_Write)

lemma status_writeJSON [simp]: "status_of (writeJSON c v h) = keep_status c (status_of h)"
  by (cases "status_of h") (simp_all add: writeJSON_send)

lemma status_writeError [simp]: "status_of (writeError c e i h) = keep_status c (status_of h)"
  by (simp add: writeError_def)

lemma status_add_usage [simp]: "status_of (add_usage sv env t n h) = status_of h"
  by (simp add: add_usage_def split: option.split prod.split sum.split)

subsection \<open>Streams\<close>

lemma status_cw: "status_of (cw_dst cw) = Some c \<Longrightarrow> status_of (cw_dst (fst (cw_hstate cw p))) = Some c"
  using status_hw_Write [of "cw_dst cw" p]
  by (cases "hw_Write (cw_dst cw) p") (simp add: countWriter_Write_def)

lemma status_ww_Write:
  assumes "status_of (ww_dst ww) = Some c"
  shows "status_of (ww_dst (fst (ww_Write sv t ww p))) = Some c"
proof -
  obtain w' cw' st e where fl: "Flush cw_hstate (fst (Window_Write (ww_win ww) p)) \<lparr>cw_dst = ww_dst ww, cw_written = 0\<rparr>
      = (w', cw', st, e)" by (metis prod_cases4)
  have "status_of (cw_dst cw') = Some c"
    using Flush_dst [of cw_hstate "fst (Window_Write (ww_win ww) p)" "\<lparr>cw_dst = ww_dst ww, cw_written = 0\<rparr>"] fl
      status_cw [of "\<lparr>cw_dst = ww_dst ww, cw_written = 0\<rparr>" c] assms by auto
  with assms show ?thesis by (simp add: ww_Write_def fl Let_def split: option.split)
qed

lemma status_finish:
  assumes "status_of (ww_dst ww) = Some c"
  shows "status_of (finish_stream sv env i t ww err) = Some c"
proof -
  obtain w' cw' st e where dr: "DrainSafe cw_hstate (ww_win ww) \<lparr>cw_dst = ww_dst ww, cw_written = 0\<rparr>
      = (w', cw', st, e)" by (metis prod_cases4)
  have "status_of (cw_dst cw') = Some c"
    using DrainSafe_dst [of cw_hstate "ww_win ww" "\<lparr>cw_dst = ww_dst ww, cw_written = 0\<rparr>"] dr
      status_cw [of "\<lparr>cw_dst = ww_dst ww, cw_written = 0\<rparr>" c] assms by auto
  with assms show ?thesis by (simp add: finish_stream_def dr Let_def split: option.split)
qed

lemma status_run_stream:
  assumes "stream_source (e_stream env)" and "status_of h = None"
  shows "status_of (run_stream sv env i t prompt h) = Some 200"
proof -
  let ?h = "(start_stream i h)\<lparr>h_calls := h_calls h @ [StreamTo prompt]\<rparr>"
  have start: "status_of (ww_dst (new_windowWriter sv ?h)) = Some 200"
    using assms(2) by (simp add: new_windowWriter_def start_stream_def)
  have "status_of (ww_dst (fst (e_stream env prompt (ww_Write sv t) (new_windowWriter sv ?h)))) = Some 200"
    by (rule stream_source.preserves [where I = "\<lambda>ww. status_of (ww_dst ww) = Some 200", OF assms(1) status_ww_Write start])
  then show ?thesis by (simp add: run_stream_def Let_def case_prod_beta status_finish)
qed

subsection \<open>The decision\<close>

text \<open>The status of a handler after admission, with the store it finds.\<close>

definition handler_status :: "server \<Rightarrow> 's env \<Rightarrow> request \<Rightarrow> string \<Rightarrow> 's \<Rightarrow> int" where
  "handler_status sv env rq tid store =
     (case read_prompt sv env rq of
        Refuse st _ \<Rightarrow> st
      | Prompt prompt \<Rightarrow>
          (let result = Scan (e_log2 env) (e_map_order env) prompt
           in if Verdict result = VerdictBlock \<or>
                 policy_blocks (evalPolicy sv env tid (Score result) ''mock-llm-v1'' store) then 403
              else if rq_path rq = ''/v1/stream'' then 200
              else
                (case e_generate env prompt of
                   Inl e \<Rightarrow> if is_deadline e then 504 else 502
                 | Inr _ \<Rightarrow> 200)))"

definition answer_status :: "server \<Rightarrow> 's env \<Rightarrow> request \<Rightarrow> 's \<Rightarrow> int" where
  "answer_status sv env rq store =
     (if exempt (rq_path rq) then 200
      else
        (case Authenticate (sv_auth sv) (rq_authorization rq) of
           Inl _ \<Rightarrow> 401
         | Inr t \<Rightarrow>
             (let tid = t_id t; store' = after_rate sv env tid store
              in if \<not> rate_ok sv env tid store \<or> \<not> quota_ok sv env tid store' then 429
                 else handler_status sv env rq tid store')))"

lemma check_rate_status:
  "status_of h = None \<Longrightarrow>
   (case check_rate sv env t h of
      Inl h' \<Rightarrow> \<not> rate_ok sv env t (h_store h) \<and> status_of h' = Some 429
    | Inr h' \<Rightarrow> rate_ok sv env t (h_store h) \<and> h_store h' = after_rate sv env t (h_store h) \<and> status_of h' = None)"
  by (auto simp: check_rate_def rate_ok_def after_rate_def split: option.split prod.split sum.split)

lemma check_quota_status:
  "status_of h = None \<Longrightarrow>
   (case check_quota sv env t h of
      Inl h' \<Rightarrow> \<not> quota_ok sv env t (h_store h) \<and> status_of h' = Some 429
    | Inr h' \<Rightarrow> quota_ok sv env t (h_store h) \<and> h_store h' = h_store h \<and> status_of h' = None)"
  by (auto simp: check_quota_def quota_ok_def split: option.split prod.split sum.split)

lemma guard_status:
  assumes "status_of h = None"
  shows "case guard_prompt sv env i t prompt h of
      Inl h' \<Rightarrow> (Verdict (Scan (e_log2 env) (e_map_order env) prompt) = VerdictBlock \<or>
        policy_blocks (evalPolicy sv env t (Score (Scan (e_log2 env) (e_map_order env) prompt)) ''mock-llm-v1'' (h_store h))) \<and>
        status_of h' = Some 403
    | Inr h' \<Rightarrow> Verdict (Scan (e_log2 env) (e_map_order env) prompt) \<noteq> VerdictBlock \<and>
        \<not> policy_blocks (evalPolicy sv env t (Score (Scan (e_log2 env) (e_map_order env) prompt)) ''mock-llm-v1'' (h_store h)) \<and>
        status_of h' = None"
  using assms by (auto simp: guard_prompt_def Let_def)

lemma handleComplete_status:
  assumes "status_of h = None" and "rq_path rq = ''/v1/complete''"
  shows "status_of (handleComplete sv env (WithTenant ctx t) rq h) = Some (handler_status sv env rq (t_id t) (h_store h))"
proof (cases "read_prompt sv env rq")
  case (Prompt prompt)
  show ?thesis
  proof (cases "guard_prompt sv env (requestIDFromCtx (WithTenant ctx t)) (t_id t) prompt h")
    case (Inl h')
    with guard_status [OF assms(1), where sv = sv and env = env and i = "requestIDFromCtx (WithTenant ctx t)" and t = "t_id t" and prompt = prompt] show ?thesis
      by (simp add: handleComplete_def Prompt handler_status_def Let_def)
  next
    case (Inr h')
    with guard_status [OF assms(1), where sv = sv and env = env and i = "requestIDFromCtx (WithTenant ctx t)" and t = "t_id t" and prompt = prompt] assms(2) show ?thesis
      by (simp add: handleComplete_def Prompt handler_status_def Let_def split: sum.split)
  qed
qed (simp add: handleComplete_def handler_status_def assms)

lemma handleStream_status:
  assumes "stream_source (e_stream env)" and "status_of h = None" and "rq_path rq = ''/v1/stream''"
  shows "status_of (handleStream sv env (WithTenant ctx t) rq h) = Some (handler_status sv env rq (t_id t) (h_store h))"
proof (cases "read_prompt sv env rq")
  case (Prompt prompt)
  show ?thesis
  proof (cases "guard_prompt sv env (requestIDFromCtx (WithTenant ctx t)) (t_id t) prompt h")
    case (Inl h')
    with guard_status [OF assms(2), where sv = sv and env = env and i = "requestIDFromCtx (WithTenant ctx t)" and t = "t_id t" and prompt = prompt] show ?thesis
      by (simp add: handleStream_def Prompt handler_status_def Let_def)
  next
    case (Inr h')
    with guard_status [OF assms(2), where sv = sv and env = env and i = "requestIDFromCtx (WithTenant ctx t)" and t = "t_id t" and prompt = prompt] assms(3) show ?thesis
      by (simp add: handleStream_def Prompt handler_status_def Let_def status_run_stream [OF assms(1)])
  qed
qed (simp add: handleStream_def handler_status_def assms)

lemma admit_status:
  assumes "status_of h = None" and "\<not> exempt (rq_path rq)"
  shows "case admit sv env rq ctx h of
      Inl h' \<Rightarrow> status_of h' = Some (answer_status sv env rq (h_store h))
    | Inr (ctx', tid, h') \<Rightarrow> \<exists>t. ctx' = WithTenant ctx t \<and> status_of h' = None \<and>
        answer_status sv env rq (h_store h) = handler_status sv env rq (t_id t) (h_store h')"
proof (cases "Authenticate (sv_auth sv) (rq_authorization rq)")
  case (Inl e)
  then show ?thesis using assms by (simp add: admit_def answer_status_def)
next
  case (Inr t)
  show ?thesis
  proof (cases "check_rate sv env (t_id t) h")
    case rate: (Inl h')
    with check_rate_status [OF assms(1), of sv env "t_id t"] show ?thesis
      using assms(2) by (simp add: admit_def answer_status_def Inr rate Let_def)
  next
    case rate: (Inr h1)
    with check_rate_status [OF assms(1), of sv env "t_id t"]
    have h1: "rate_ok sv env (t_id t) (h_store h)" "h_store h1 = after_rate sv env (t_id t) (h_store h)" "status_of h1 = None"
      by simp_all
    show ?thesis using check_quota_status [OF h1(3), of sv env "t_id t"] h1 assms(2)
      by (cases "check_quota sv env (t_id t) h1") (auto simp: admit_def answer_status_def Inr rate Let_def)
  qed
qed

lemma serve_status:
  assumes "stream_source (e_stream env)" and "rs_sent (h_resp h) = None"
    and "rq_path rq \<in> {''/v1/complete'', ''/v1/stream'', ''/healthz''}"
  shows "status_of (serve sv env rq h) = Some (answer_status sv env rq (h_store h))"
proof -
  let ?h = "set_header ''X-Request-ID'' (e_req_id env) h"
  have "status_of h = None" using assms(2) by (simp add: status_of_def)
  then have h: "status_of ?h = None" by simp
  show ?thesis
  proof (cases "exempt (rq_path rq)")
    case True
    with assms(3) have path: "rq_path rq = ''/healthz''" by (auto simp: exempt_def)
    with h show ?thesis
      by (simp add: serve_admit admit_def path exempt_def mux_def handleHealth_def start_handler_def answer_status_def Let_def)
  next
    case False
    note adm = admit_status [OF h False, of sv env "first_ctx env"]
    show ?thesis
    proof (cases "admit sv env rq (first_ctx env) ?h")
      case (Inl h')
      with adm show ?thesis by (simp add: serve_admit)
    next
      case (Inr r)
      obtain ctx tid h' where r: "r = (ctx, tid, h')" by (cases r) auto
      with Inr adm obtain t where t: "ctx = WithTenant (first_ctx env) t" "status_of h' = None"
        "answer_status sv env rq (h_store h) = handler_status sv env rq (t_id t) (h_store h')" by auto
      have "status_of (mux sv env ctx rq (start_handler sv h')) = Some (handler_status sv env rq (t_id t) (h_store h'))"
        using assms(3) False t(2) handleComplete_status [of "start_handler sv h'" rq sv env "first_ctx env" t]
          handleStream_status [OF assms(1), of "start_handler sv h'" rq sv "first_ctx env" t]
        by (auto simp: mux_def t(1) exempt_def) (simp_all add: start_handler_def)
      then show ?thesis using False by (simp add: serve_admit Inr r t(3) Let_def)
    qed
  qed
qed

subsection \<open>Properties\<close>

text \<open>
  C4: every request to a route of the gateway is answered, and with which status.  Whatever the
  backend, the Redis links and the client's connection do, a response with one status is
  sent: 401 without a known key, 429 over a limit, 405, 413 or 400 for a bad request, 403
  when the scan or the policy blocks, 504 or 502 when the backend fails on a completion, and
  200 otherwise; a stream has status 200 even when its backend fails.
\<close>

theorem every_request_answered:
  assumes "stream_source (e_stream env)" and "rs_sent (h_resp h) = None"
    and "rq_path rq \<in> {''/v1/complete'', ''/v1/stream'', ''/healthz''}"
  shows "\<exists>headers. rs_sent (h_resp (serve sv env rq h)) = Some (answer_status sv env rq (h_store h), headers)"
  using serve_status [OF assms] by (auto simp: status_of_def)

lemma every_request_answered_witness:
  "\<exists>headers. rs_sent (h_resp (serve demo_server demo_stream_env
       (demo_request ''/v1/stream''\<lparr>rq_authorization := ''Bearer wrong''\<rparr>) demo_state)) = Some (401, headers)"
proof -
  have auth: "Authenticate DefaultStore ''Bearer wrong'' = Inl ErrUnauthorized" by code_simp
  have "answer_status demo_server demo_stream_env
      (demo_request ''/v1/stream''\<lparr>rq_authorization := ''Bearer wrong''\<rparr>) (h_store demo_state) = 401"
    by (simp add: answer_status_def exempt_def demo_request_def demo_server_def auth)
  then show ?thesis
    using every_request_answered [of demo_stream_env demo_state
        "demo_request ''/v1/stream''\<lparr>rq_authorization := ''Bearer wrong''\<rparr>" demo_server]
    by (simp add: demo_env_def oai.stream_source_axioms demo_state_def demo_request_def)
qed

end
