(* ===== verification/Gateway_Error_Events.thy ===== *)
theory Gateway_Error_Events
  imports Gateway_Safety
begin

text \<open>
  The error events of a stream, \<open>handleStream\<close> of \<open>internal/gateway/gateway.go\<close>: they are
  written with the verb \<open>%q\<close>, which quotes for Go and not for JSON.
\<close>

subsection \<open>Quoted text stays on one line\<close>

lemma quote_rune_line:
  assumes "scalar_rune r"
  shows "NL \<notin> set (quote_rune table r)"
proof -
  have r: "0 \<le> r" "r \<le> 0x10FFFF" using assms by (auto simp: scalar_rune_def)
  have "is_print table r \<Longrightarrow> 0x20 \<le> r" by (auto simp: is_print_def split: if_split_asm)
  with encode_rune_line [OF assms] have pr: "is_print table r \<Longrightarrow> NL \<notin> set (encode_rune r)" by blast
  have hi: "0 \<le> r div 65536" "r div 65536 < 65536" using r by (auto simp: div_less_iff_less_mult pos_imp_zdiv_nonneg_iff)
  have q: "r = 34 \<or> r = 92 \<Longrightarrow> NL \<noteq> char_of r" by (auto simp: char_of_escaped)
  show ?thesis
    using r pr hi q hex_line by (auto simp: quote_rune_def)
qed

lemma quote_body_line: "NL \<notin> set (quote_body table s)"
proof (induction table s rule: quote_body.induct)
  case (2 table c cs)
  obtain r rest where d: "decode_rune c cs = (r, rest)" by (cases "decode_rune c cs") auto
  with 2 have "NL \<notin> set (quote_body table rest)" by simp
  with d quote_rune_line [OF decode_rune_scalar [OF d]] hex_line(2) byte_val_bounds [of c] show ?case by auto
qed simp

lemma Quote_line: "NL \<notin> set (Quote table s)"
  using quote_body_line by (simp add: Quote_def)

subsection \<open>The events\<close>

text \<open>The JSON value an event is meant to be.\<close>

definition error_object :: "string \<Rightarrow> string option \<Rightarrow> string \<Rightarrow> json" where
  "error_object code msg req_id =
     JObject ([(''error'', JString code)] @
       (case msg of None \<Rightarrow> [] | Some m \<Rightarrow> [(''message'', JString (valid_text m))]) @
       [(''request_id'', JString (valid_text req_id))])"

definition stream_error_codes :: "string list" where
  "stream_error_codes = [''provider_timeout'', ''provider_error'', ''output_policy_violation'']"

lemma json_value_quote:
  "json_value d (Quote table s @ t) = (if all_quotable table s then Parsed (JString (valid_text s)) t else Malformed)"
proof -
  have "json_value d (DQUOTE # quote_body table s @ DQUOTE # t) = json_scalar (DQUOTE # quote_body table s @ DQUOTE # t)"
    by (rule json_value_scalar [OF HOL.refl]) (simp_all add: is_json_space_def)
  then show ?thesis by (simp add: Quote_def json_scalar_def has_prefix_def quote_body_json)
qed

lemma json_member_quote:
  "json_member (json_value d) (encode_string k @ CHR '':'' # Quote table s @ t) =
    (if all_quotable table s then Parsed (valid_text k, JString (valid_text s)) t else Malformed)"
  by (simp add: json_member_def encode_string_def skip_space_def is_json_space_def json_string_round json_value_quote)

lemma json_member_string:
  "delimited t \<Longrightarrow> json_member (json_value d) (encode_string k @ CHR '':'' # encode_string v @ t) =
    Parsed (valid_text k, JString (valid_text v)) t"
  using json_value_encode [of "JString v" d t]
  by (simp add: json_member_def encode_string_def skip_space_def is_json_space_def json_string_round)

lemma json_members_step:
  assumes "json_member p s = Parsed m (CHR '','' # t)" "length t < length s"
  shows "json_members p s = map_parsed (\<lambda>ms. m # ms) (json_members p t)"
  using assms by (subst json_members.simps) (simp add: skip_space_def is_json_space_def)

lemma json_members_last:
  "json_member p s = Parsed m (CHR ''}'' # t) \<Longrightarrow> json_members p s = Parsed [m] t"
  by (subst json_members.simps) (simp add: skip_space_def is_json_space_def)

lemma json_members_bad: "json_member p s = Malformed \<Longrightarrow> json_members p s = Malformed"
  by (subst json_members.simps) simp

lemma event_texts [simp]:
  "qt ''error'' = encode_string ''error''" "qt ''message'' = encode_string ''message''"
  "qt ''request_id'' = encode_string ''request_id''"
  "valid_text ''error'' = ''error''" "valid_text ''message'' = ''message''" "valid_text ''request_id'' = ''request_id''"
  by code_simp+

lemma event_codes:
  assumes "code \<in> set stream_error_codes"
  shows "qt code = encode_string code" "valid_text code = code" "NL \<notin> set (encode_string code)"
proof -
  have "list_all (\<lambda>c. qt c = encode_string c \<and> valid_text c = c \<and> NL \<notin> set (encode_string c)) stream_error_codes"
    by code_simp
  with assms show "qt code = encode_string code" "valid_text code = code" "NL \<notin> set (encode_string code)"
    by (auto simp: list_all_iff)
qed

definition event_text :: "(int \<Rightarrow> bool) \<Rightarrow> string \<Rightarrow> string option \<Rightarrow> string \<Rightarrow> bytes" where
  "event_text table code msg req_id =
     ''{'' @ encode_string ''error'' @ '':'' @ encode_string code @ '','' @
     (case msg of None \<Rightarrow> [] | Some m \<Rightarrow> encode_string ''message'' @ '':'' @ Quote table m @ '','') @
     encode_string ''request_id'' @ '':'' @ Quote table req_id @ ''}''"

lemma sentinel_event:
  "code \<in> set stream_error_codes \<Longrightarrow>
   sentinel env code msg req_id = sse_event (event_text (e_printable env) code msg req_id)"
  by (cases msg) (simp_all add: sentinel_def sse_event_def event_text_def event_codes(1))

lemma json_event:
  assumes "code \<in> set stream_error_codes"
  shows "json_unmarshal (event_text table code msg req_id) =
    (if (\<forall>m. msg = Some m \<longrightarrow> all_quotable table m) \<and> all_quotable table req_id
     then Some (error_object code msg req_id) else None)"
proof -
  let ?p = "json_value 9999"
  let ?id = "encode_string ''request_id'' @ CHR '':'' # Quote table req_id @ ''}''"
  let ?rest = "(case msg of None \<Rightarrow> [] | Some m \<Rightarrow> encode_string ''message'' @ '':'' @ Quote table m @ '','') @ ?id"
  have id: "json_members ?p ?id =
      (if all_quotable table req_id then Parsed [(''request_id'', JString (valid_text req_id))] [] else Malformed)"
    using json_member_quote [of 9999 "''request_id''" table req_id "''}''"]
    by (auto intro: json_members_last json_members_bad)
  have rest: "json_members ?p ?rest =
      (if (\<forall>m. msg = Some m \<longrightarrow> all_quotable table m) \<and> all_quotable table req_id
       then Parsed ((case msg of None \<Rightarrow> [] | Some m \<Rightarrow> [(''message'', JString (valid_text m))]) @
              [(''request_id'', JString (valid_text req_id))]) [] else Malformed)"
  proof (cases msg)
    case None
    then show ?thesis using id by simp
  next
    case (Some m)
    note mem = json_member_quote [of 9999 "''message''" table m "CHR '','' # ?id"]
    show ?thesis
    proof (cases "all_quotable table m")
      case True
      with mem have "json_member ?p ?rest = Parsed (''message'', JString (valid_text m)) (CHR '','' # ?id)" by (simp add: Some)
      from json_members_step [OF this] id True show ?thesis by (simp add: Some)
    next
      case False
      with mem have "json_member ?p ?rest = Malformed" by (simp add: Some)
      from json_members_bad [OF this] False show ?thesis by (simp add: Some)
    qed
  qed
  have "json_member ?p (encode_string ''error'' @ CHR '':'' # encode_string code @ CHR '','' # ?rest) =
      Parsed (''error'', JString code) (CHR '','' # ?rest)"
    using json_member_string [of "CHR '','' # ?rest" 9999 "''error''" code] event_codes(2) [OF assms] by (simp add: delimited_def)
  from json_members_step [OF this]
  have all: "json_members ?p (encode_string ''error'' @ CHR '':'' # encode_string code @ CHR '','' # ?rest) =
      map_parsed (\<lambda>ms. (''error'', JString code) # ms) (json_members ?p ?rest)" by simp
  have depth: "max_depth = Suc 9999" by (simp add: max_depth_def)
  have start: "encode_string ''error'' @ u = DQUOTE # tl (encode_string ''error'' @ u)" for u
    by (simp add: encode_string_def)
  have "json_value max_depth (event_text table code msg req_id) =
      map_parsed JObject (json_members ?p (encode_string ''error'' @ CHR '':'' # encode_string code @ CHR '','' # ?rest))"
    unfolding depth event_text_def append_Cons append_Nil append_assoc
    by (rule json_value_nonempty(2) [OF start]) (simp_all add: is_json_space_def)
  then show ?thesis unfolding all rest by (simp add: json_unmarshal_def error_object_def skip_space_def)
qed

subsection \<open>Properties\<close>

text \<open>
  C26: an error event is always one event, and JSON exactly when the error's text allows it.
  Whatever the text of the provider's error and the request id, the event is a single
  line, so it cannot be taken for several events; its payload is the intended JSON object
  when every rune of the two texts has a JSON escape or is printable, and no JSON at all
  otherwise: a bell, a vertical tab, an escape character, a deleted character, a byte that
  is not UTF-8 or an unprintable rune from 0x10000 on make it unreadable.
\<close>

theorem error_event_json_iff:
  assumes "code \<in> set stream_error_codes"
  shows "\<exists>payload. sentinel env code msg req_id = sse_event payload \<and> NL \<notin> set payload \<and>
    json_unmarshal payload =
      (if (\<forall>m. msg = Some m \<longrightarrow> all_quotable (e_printable env) m) \<and> all_quotable (e_printable env) req_id
       then Some (error_object code msg req_id) else None)"
proof (intro exI conjI)
  show "sentinel env code msg req_id = sse_event (event_text (e_printable env) code msg req_id)"
    by (rule sentinel_event [OF assms])
  have "NL \<notin> set (encode_string ''error'')" "NL \<notin> set (encode_string ''message'')" "NL \<notin> set (encode_string ''request_id'')"
    by code_simp+
  then show "NL \<notin> set (event_text (e_printable env) code msg req_id)"
    using Quote_line event_codes(3) [OF assms] by (auto simp: event_text_def split: option.split)
qed (rule json_event [OF assms])

lemma error_event_json_iff_witness:
  "\<exists>payload. sentinel demo_stream_env ''provider_error'' (Some (''exit'' @ [CHR 0x07])) ''r1'' = sse_event payload \<and>
     NL \<notin> set payload \<and> json_unmarshal payload = None"
proof -
  have "\<not> all_quotable (e_printable demo_stream_env) (''exit'' @ [CHR 0x07])" by code_simp
  moreover have "''provider_error'' \<in> set stream_error_codes" by (simp add: stream_error_codes_def)
  ultimately show ?thesis
    using error_event_json_iff [of "''provider_error''" demo_stream_env "Some (''exit'' @ [CHR 0x07])" "''r1''"] by simp
qed

end
