(* ===== verification/Go_Sha256.thy ===== *)
theory Go_Sha256
  imports Go_Json "HOL-Library.Word"
begin

text \<open>
  \<open>crypto/sha256\<close>, for the version of a policy: FIPS 180-4 on 32-bit words.  A block is
  sixteen words; the schedule is kept with its newest word first.
\<close>

unbundle bit_operations_syntax

type_synonym w32 = "32 word"

text \<open>
  The constants of the standard are derived, not listed: the first 32 bits of the fractions of
  the cube roots of the first 64 primes, and of the square roots of the first eight.
  \<open>int_root k n b r\<close> settles the bits below \<open>b\<close> of the \<open>k\<close>-th root of \<open>n\<close>, from the top; 37 bits
  are enough for the roots of numbers below \<open>32 ^ 2\<close> with 32 bits of fraction.  A number
  below 361 that is not a multiple of a smaller prime up to 17 is prime.
\<close>

fun int_root :: "nat \<Rightarrow> int \<Rightarrow> nat \<Rightarrow> int \<Rightarrow> int" where
  "int_root k n 0 r = r"
| "int_root k n (Suc b) r = (let r' = r + 2 ^ b in int_root k n b (if r' ^ k \<le> n then r' else r))"

definition root_fraction :: "nat \<Rightarrow> int \<Rightarrow> w32" where
  "root_fraction k p = word_of_int (int_root k (p * 2 ^ (32 * k)) 37 0)"

definition primes :: "int list" where
  "primes = filter (\<lambda>n. list_all (\<lambda>d. n = d \<or> n mod d \<noteq> 0) [2, 3, 5, 7, 11, 13, 17]) [2..311]"

definition round_constants :: "w32 list" where
  "round_constants = map (root_fraction 3) primes"

definition ror :: "nat \<Rightarrow> w32 \<Rightarrow> w32" where
  "ror n x = drop_bit n x OR push_bit (32 - n) x"

definition next_word :: "w32 list \<Rightarrow> w32" where
  "next_word ws =
     (let x = ws ! 14; y = ws ! 1
      in (ror 17 y XOR ror 19 y XOR drop_bit 10 y) + ws ! 6 +
         (ror 7 x XOR ror 18 x XOR drop_bit 3 x) + ws ! 15)"

fun schedule :: "nat \<Rightarrow> w32 list \<Rightarrow> w32 list" where
  "schedule 0 ws = rev ws"
| "schedule (Suc n) ws = schedule n (next_word ws # ws)"

type_synonym digest = "w32 \<times> w32 \<times> w32 \<times> w32 \<times> w32 \<times> w32 \<times> w32 \<times> w32"

fun sha_round :: "w32 \<times> w32 \<Rightarrow> digest \<Rightarrow> digest" where
  "sha_round (k, w) (a, b, c, d, e, f, g, h) =
     (let t1 = h + (ror 6 e XOR ror 11 e XOR ror 25 e) + ((e AND f) XOR (NOT e AND g)) + k + w;
          t2 = (ror 2 a XOR ror 13 a XOR ror 22 a) + ((a AND b) XOR (a AND c) XOR (b AND c))
      in (t1 + t2, a, b, c, d + t1, e, f, g))"

fun add_digest :: "digest \<Rightarrow> digest \<Rightarrow> digest" where
  "add_digest (a, b, c, d, e, f, g, h) (a', b', c', d', e', f', g', h') =
     (a + a', b + b', c + c', d + d', e + e', f + f', g + g', h + h')"

definition compress :: "w32 list \<Rightarrow> digest \<Rightarrow> digest" where
  "compress block d = add_digest d (fold sha_round (zip round_constants (schedule 48 (rev block))) d)"

definition start_digest :: digest where
  "start_digest =
     (let r = root_fraction 2 in (r 2, r 3, r 5, r 7, r 11, r 13, r 17, r 19))"

text \<open>The padding, and the words of the padded message, most significant byte first.\<close>

definition be_bytes :: "nat \<Rightarrow> int \<Rightarrow> bytes" where
  "be_bytes n x = map (\<lambda>i. char_of (x div 256 ^ i)) (rev [0..<n])"

definition pad :: "bytes \<Rightarrow> bytes" where
  "pad s = s @ [CHR 0x80] @ replicate ((119 - length s mod 64) mod 64) (CHR 0x00) @ be_bytes 8 (8 * int (length s))"

fun be_words :: "bytes \<Rightarrow> w32 list" where
  "be_words (a # b # c # d # s) =
     word_of_int (((byte_val a * 256 + byte_val b) * 256 + byte_val c) * 256 + byte_val d) # be_words s"
| "be_words _ = []"

function fold_blocks :: "w32 list \<Rightarrow> digest \<Rightarrow> digest" where
  "fold_blocks ws d = (if ws = [] then d else fold_blocks (drop 16 ws) (compress (take 16 ws) d))"
  by pat_completeness auto
termination
  by (relation "measure (\<lambda>(ws, _). length ws)") auto

declare fold_blocks.simps [simp del]

fun digest_bytes :: "digest \<Rightarrow> bytes" where
  "digest_bytes (a, b, c, d, e, f, g, h) = concat (map (\<lambda>x. be_bytes 4 (uint x)) [a, b, c, d, e, f, g, h])"

definition sha256 :: "bytes \<Rightarrow> bytes" where
  "sha256 s = digest_bytes (fold_blocks (be_words (pad s)) start_digest)"

text \<open>The verb \<open>%x\<close> on bytes.\<close>

definition hex_bytes :: "bytes \<Rightarrow> string" where
  "hex_bytes s = concat (map (\<lambda>c. [hex_digit (byte_val c div 16), hex_digit (byte_val c mod 16)]) s)"

text \<open>The example of the standard.\<close>

lemma sha256_abc: "hex_bytes (sha256 ''abc'') = ''ba7816bf8f01cfea414140de5dae2223b00361a396177a9cb410ff61f20015ad''"
  by code_simp

end
