(* ===== verification/Policy_Cache.thy ===== *)
theory Policy_Cache
  imports Policy_Watcher Rate_Limit Go_Sha256
begin

text \<open>
  The policy cache, \<open>internal/cache/policy.go\<close>: the source of a policy in Redis, as JSON under
  a key made of the tenant and a prefix of the SHA-256 of the source.  The string commands of
  Redis are a parameter (\<open>string_ops\<close>) with their documented effect as the locale
  \<open>string_store\<close>, kept by a store in memory.
\<close>

subsection \<open>Redis strings\<close>

datatype str_reply = SNil | SBytes bytes | SError string

record 's string_ops =
  str_set :: "'s \<Rightarrow> bytes \<Rightarrow> bytes \<Rightarrow> int \<Rightarrow> 's"
  str_get :: "'s \<Rightarrow> bytes \<Rightarrow> str_reply"
  str_keys :: "'s \<Rightarrow> bytes \<Rightarrow> bytes list"

text \<open>
  \<open>SET\<close> with a time to live in seconds, \<open>GET\<close>, and \<open>KEYS\<close>, whose result has no order.  What
  \<open>KEYS\<close> finds is stated for patterns that are a literal text and a star.
\<close>

definition glob_literal :: "bytes \<Rightarrow> bool" where
  "glob_literal p \<longleftrightarrow> list_all (\<lambda>c. c \<notin> {CHR ''*'', CHR ''?'', CHR ''['', CHR '']'', CHR 0x5C}) p"

locale string_store =
  fixes ops :: "'s string_ops"
    and view :: "'s \<Rightarrow> bytes \<rightharpoonup> bytes"
  assumes str_set: "view (str_set ops s k v ttl) = (view s)(k \<mapsto> v)"
    and str_get: "str_get ops s k = (case view s k of None \<Rightarrow> SNil | Some v \<Rightarrow> SBytes v)"
    and str_keys: "glob_literal p \<Longrightarrow> set (str_keys ops s (p @ ''*'')) = {k \<in> dom (view s). has_prefix k p}"

definition policyTTL :: int where "policyTTL = 24 * 3600"

subsection \<open>Keys and versions\<close>

definition contentVersion :: "bytes \<Rightarrow> bytes" where
  "contentVersion source = hex_bytes (take 8 (sha256 source))"

definition cacheKey :: "bytes \<Rightarrow> bytes \<Rightarrow> bytes" where
  "cacheKey tenant_id version = ''policy:'' @ tenant_id @ '':'' @ version"

subsection \<open>The entry and its JSON\<close>

record rule_entry =
  re_name :: bytes
  re_action :: bytes
  re_reason :: bytes

record cached_entry =
  ce_tenant_id :: bytes
  ce_version :: bytes
  ce_source :: bytes
  ce_rules :: "rule_entry list \<times> nat"

definition rule_json :: "compiled_rule \<Rightarrow> json" where
  "rule_json r =
     JObject [(''name'', JString (cr_name r)), (''action'', JString (cr_action r)), (''reason'', JString (cr_reason r))]"

definition entry_json :: "bytes \<Rightarrow> bytes \<Rightarrow> bytes \<Rightarrow> compiled_rule list \<Rightarrow> json" where
  "entry_json tenant_id version source rules =
     JObject [(''tenant_id'', JString tenant_id), (''version'', JString version), (''source'', JString source),
              (''rules'', JArray (map rule_json rules))]"

definition store_rule_entry :: "bytes \<Rightarrow> json \<Rightarrow> rule_entry \<Rightarrow> rule_entry \<times> bool" where
  "store_rule_entry k v r =
     (if field_matches k ''name'' then apfst (\<lambda>x. r\<lparr>re_name := x\<rparr>) (store_string v (re_name r))
      else if field_matches k ''action'' then apfst (\<lambda>x. r\<lparr>re_action := x\<rparr>) (store_string v (re_action r))
      else if field_matches k ''reason'' then apfst (\<lambda>x. r\<lparr>re_reason := x\<rparr>) (store_string v (re_reason r))
      else (r, True))"

definition store_entry :: "bytes \<Rightarrow> json \<Rightarrow> cached_entry \<Rightarrow> cached_entry \<times> bool" where
  "store_entry k v e =
     (if field_matches k ''tenant_id'' then apfst (\<lambda>x. e\<lparr>ce_tenant_id := x\<rparr>) (store_string v (ce_tenant_id e))
      else if field_matches k ''version'' then apfst (\<lambda>x. e\<lparr>ce_version := x\<rparr>) (store_string v (ce_version e))
      else if field_matches k ''source'' then apfst (\<lambda>x. e\<lparr>ce_source := x\<rparr>) (store_string v (ce_source e))
      else if field_matches k ''rules''
      then apfst (\<lambda>x. e\<lparr>ce_rules := x\<rparr>)
             (store_slice (store_struct store_rule_entry) \<lparr>re_name = [], re_action = [], re_reason = []\<rparr> v (ce_rules e))
      else (e, True))"

definition no_entry :: cached_entry where
  "no_entry = \<lparr>ce_tenant_id = [], ce_version = [], ce_source = [], ce_rules = ([], 0)\<rparr>"

subsection \<open>\<open>Set\<close> and \<open>Get\<close>\<close>

definition cache_Set ::
  "'s string_ops \<Rightarrow> bytes \<Rightarrow> bytes \<Rightarrow> compiled_rule list \<Rightarrow> link \<Rightarrow> 's \<Rightarrow> 's \<times> string option" where
  "cache_Set ops tenant_id source rules lk s =
     (let version = contentVersion source;
          key = cacheKey tenant_id version;
          data = json_encode (entry_json tenant_id version source rules);
          s' = str_set ops s key data policyTTL
      in case lk of
           LinkUp \<Rightarrow> (s', None)
         | LinkLost e executed \<Rightarrow> (if executed then s' else s, Some e))"

datatype get_error =
    RedisGet string
  | UnmarshalEntry
  | Reparse parse_error
  | Recompile compile_error

text \<open>\<open>Inr None\<close> is the nil slice of a cache miss.\<close>

definition cache_Get ::
  "'s string_ops \<Rightarrow> unicode_tables \<Rightarrow> bytes \<Rightarrow> bytes \<Rightarrow> link \<Rightarrow> 's \<Rightarrow> get_error + compiled_rule list option" where
  "cache_Get ops u tenant_id version lk s =
     (case lk of
        LinkLost e _ \<Rightarrow> Inl (RedisGet e)
      | LinkUp \<Rightarrow>
          (case str_get ops s (cacheKey tenant_id version) of
             SNil \<Rightarrow> Inr None
           | SError e \<Rightarrow> Inl (RedisGet e)
           | SBytes data \<Rightarrow>
               (case unmarshal_into store_entry no_entry data of
                  None \<Rightarrow> Inl UnmarshalEntry
                | Some entry \<Rightarrow>
                    (case Parse (ce_source entry) of
                       Inl e \<Rightarrow> Inl (Reparse e)
                     | Inr ast \<Rightarrow>
                         (case Compile u ast of
                            Inl e \<Rightarrow> Inl (Recompile e)
                          | Inr rules \<Rightarrow> Inr (Some rules))))))"

subsection \<open>\<open>LatestVersion\<close>\<close>

text \<open>
  \<open>fmt.Sscanf(s, p + "%s", &v)\<close> for a literal \<open>p\<close> of ASCII without white space and percent
  signs: the text must begin with \<open>p\<close>; then blanks are skipped, a new line among them being
  an error, and the word up to the next white space is stored.  When the scan fails,
  \<open>v\<close> keeps its zero value.
\<close>

function scan_word :: "int list \<Rightarrow> bytes" where
  "scan_word rs =
     (case rs of
        [] \<Rightarrow> []
      | r # rest \<Rightarrow>
          if r = 13 \<and> rest \<noteq> [] \<and> hd rest = 10 then scan_word rest
          else if r = 10 then []
          else if is_space_rune r then scan_word rest
          else concat (map encode_rune (takeWhile (\<lambda>r. \<not> is_space_rune r) rs)))"
  by pat_completeness auto
termination
  by (relation "measure length") auto

declare scan_word.simps [simp del]

definition Sscanf_word :: "bytes \<Rightarrow> bytes \<Rightarrow> bytes" where
  "Sscanf_word p s = (if has_prefix s p then scan_word (runes (drop (length p) s)) else [])"

definition plain_format :: "bytes \<Rightarrow> bool" where
  "plain_format s \<longleftrightarrow> list_all (\<lambda>c. 0x20 < byte_val c \<and> byte_val c < 0x7F \<and> c \<noteq> CHR ''%'') s"

text \<open>A tenant that is not such a literal becomes part of the format: \<open>scan_other\<close>.\<close>

definition LatestVersion ::
  "(bytes \<Rightarrow> bytes \<Rightarrow> bytes) \<Rightarrow> 's string_ops \<Rightarrow> bytes \<Rightarrow> link \<Rightarrow> 's \<Rightarrow> string + bytes" where
  "LatestVersion scan_other ops tenant_id lk s =
     (case lk of
        LinkLost e _ \<Rightarrow> Inl e
      | LinkUp \<Rightarrow>
          (case str_keys ops s (''policy:'' @ tenant_id @ '':*'') of
             [] \<Rightarrow> Inr []
           | k # _ \<Rightarrow>
               Inr (if plain_format tenant_id then Sscanf_word (''policy:'' @ tenant_id @ '':'') k
                    else scan_other (''policy:'' @ tenant_id @ '':%s'') k)))"

subsection \<open>The cache behind the watcher\<close>

text \<open>\<open>publishToCache\<close> with the cache it calls: the outcome the watcher logs is that of \<open>Set\<close>.\<close>

definition publish_bundle :: "'s string_ops \<Rightarrow> link \<Rightarrow> bytes \<Rightarrow> policy_bundle \<Rightarrow> 's \<Rightarrow> 's \<times> cache_outcome" where
  "publish_bundle ops lk src b s =
     (case cache_Set ops (b_tenant_id b) src (b_rules b) lk s of
        (s', None) \<Rightarrow> (s', CacheSet)
      | (s', Some e) \<Rightarrow> (s', CacheError))"

definition cached_reload ::
  "'s string_ops \<Rightarrow> unicode_tables \<Rightarrow> read_result \<Rightarrow> link \<Rightarrow> watcher \<times> 's \<Rightarrow> watcher \<times> 's" where
  "cached_reload ops u rd lk ws =
     (case load u rd of
        Inl e \<Rightarrow> (reload u rd NoCache (fst ws), snd ws)
      | Inr (b, src) \<Rightarrow>
          (let (s', c) = publish_bundle ops lk src b (snd ws) in (reload u rd c (fst ws), s')))"

subsection \<open>A store in memory\<close>

type_synonym mem_strings = "(bytes \<times> bytes) list"

definition mem_strings :: "mem_strings string_ops" where
  "mem_strings =
     \<lparr>str_set = (\<lambda>s k v ttl. (k, v) # s),
      str_get = (\<lambda>s k. case map_of s k of None \<Rightarrow> SNil | Some v \<Rightarrow> SBytes v),
      str_keys = (\<lambda>s p. if p \<noteq> [] \<and> last p = CHR ''*'' \<and> glob_literal (butlast p)
                        then filter (\<lambda>k. has_prefix k (butlast p)) (remdups (map fst s)) else [])\<rparr>"

interpretation mem: string_store mem_strings map_of
  by unfold_locales (auto simp: mem_strings_def dom_map_of_conv_image_fst)

subsection \<open>Facts\<close>

lemma hex_bytes_length: "length (hex_bytes s) = 2 * length s"
  by (induction s) (simp_all add: hex_bytes_def)

lemma length_sha256: "length (sha256 s) = 32"
  by (cases "fold_blocks (be_words (pad s)) start_digest" rule: digest_bytes.cases)
    (simp add: sha256_def be_bytes_def)

lemma length_contentVersion: "length (contentVersion s) = 16"
  by (simp add: contentVersion_def hex_bytes_length length_sha256)

lemma cacheKey_inject:
  assumes "length v = length v'"
  shows "cacheKey t v = cacheKey t' v' \<longleftrightarrow> t = t' \<and> v = v'"
  using assms by (auto simp: cacheKey_def append_eq_append_conv)

lemma entry_writable: "writable (entry_json t v src rules)"
  by (induction rules) (simp_all add: entry_json_def rule_json_def list_all_iff)

lemma entry_depth: "json_depth (entry_json t v src rules) \<le> 3"
proof -
  have "foldr max (map json_depth (map rule_json rules)) 0 \<le> 1"
    by (induction rules) (simp_all add: rule_json_def)
  then show ?thesis by (simp add: entry_json_def)
qed

lemma entry_fields [simp]:
  "valid_text ''tenant_id'' = ''tenant_id''" "valid_text ''version'' = ''version''"
  "valid_text ''source'' = ''source''" "valid_text ''rules'' = ''rules''"
  "\<not> field_matches ''version'' ''tenant_id''" "\<not> field_matches ''source'' ''tenant_id''"
  "\<not> field_matches ''source'' ''version''" "\<not> field_matches ''rules'' ''tenant_id''"
  "\<not> field_matches ''rules'' ''version''" "\<not> field_matches ''rules'' ''source''"
  by (rule valid_text_ascii, code_simp)+ code_simp+

lemma rule_fields [simp]:
  "valid_text ''name'' = ''name''" "valid_text ''action'' = ''action''" "valid_text ''reason'' = ''reason''"
  "\<not> field_matches ''action'' ''name''" "\<not> field_matches ''reason'' ''name''"
  "\<not> field_matches ''reason'' ''action''"
  by (rule valid_text_ascii, code_simp)+ code_simp+

lemma store_rule_ok: "snd (store_struct store_rule_entry (valid_json (rule_json r)) x)"
  by (simp add: rule_json_def store_struct_def store_rule_entry_def store_string_def)

lemma store_rules_ok: "snd (store_elems (store_struct store_rule_entry) zero (map (\<lambda>r. valid_json (rule_json r)) rules) xs)"
  by (induction rules arbitrary: xs) (simp_all add: case_prod_beta store_rule_ok)

lemma entry_read_back:
  "\<exists>e. unmarshal_into store_entry no_entry (json_encode (entry_json t v src rules)) = Some e \<and> ce_source e = valid_text src"
proof -
  have rules: "snd (store_slice (store_struct store_rule_entry) zero (JArray (map (\<lambda>r. valid_json (rule_json r)) rules)) x)"
    for zero x
    using store_rules_ok [of zero rules "fst x"]
    by (cases rules) (simp_all add: store_slice_def case_prod_beta)
  have "store_struct store_entry (valid_json (entry_json t v src rules)) no_entry =
    (let (x, ok) = store_slice (store_struct store_rule_entry) \<lparr>re_name = [], re_action = [], re_reason = []\<rparr>
           (JArray (map (\<lambda>r. valid_json (rule_json r)) rules)) ([], 0)
     in (\<lparr>ce_tenant_id = valid_text t, ce_version = valid_text v, ce_source = valid_text src, ce_rules = x\<rparr>, ok))"
    by (simp add: entry_json_def store_struct_def store_entry_def store_string_def no_entry_def comp_def case_prod_beta)
  moreover have "unmarshal_into store_entry no_entry (json_encode (entry_json t v src rules)) =
      (let (x, ok) = store_struct store_entry (valid_json (entry_json t v src rules)) no_entry in if ok then Some x else None)"
    by (rule unmarshal_into_encode [OF entry_writable]) (rule order_trans [OF entry_depth], simp)
  ultimately show ?thesis using rules by (simp add: case_prod_beta)
qed

definition recompile :: "unicode_tables \<Rightarrow> bytes \<Rightarrow> get_error + compiled_rule list option" where
  "recompile u src =
     (case Parse src of
        Inl e \<Rightarrow> Inl (Reparse e)
      | Inr ast \<Rightarrow> (case Compile u ast of Inl e \<Rightarrow> Inl (Recompile e) | Inr rules \<Rightarrow> Inr (Some rules)))"

text \<open>Further entries that other publishers write, of any tenant and source.\<close>

fun set_all :: "'s string_ops \<Rightarrow> (bytes \<times> bytes \<times> compiled_rule list) list \<Rightarrow> 's \<Rightarrow> 's" where
  "set_all ops [] s = s"
| "set_all ops ((t, src, rules) # ps) s = set_all ops ps (fst (cache_Set ops t src rules LinkUp s))"

context string_store
begin

lemma view_Set: "view (fst (cache_Set ops t src rules LinkUp s)) =
    (view s)(cacheKey t (contentVersion src) \<mapsto> json_encode (entry_json t (contentVersion src) src rules))"
  by (simp add: cache_Set_def Let_def str_set)

lemma Get_entry:
  assumes "view s (cacheKey t v) = Some (json_encode (entry_json t' v' src rules))"
  shows "cache_Get ops u t v LinkUp s = recompile u (valid_text src)"
proof -
  obtain e where "unmarshal_into store_entry no_entry (json_encode (entry_json t' v' src rules)) = Some e"
    "ce_source e = valid_text src" using entry_read_back by blast
  with assms show ?thesis by (simp add: cache_Get_def str_get recompile_def)
qed

lemma view_set_all:
  assumes "\<forall>(t', src', rules') \<in> set ps. (t', contentVersion src') \<noteq> (t, contentVersion src)"
  shows "view (set_all ops ps s) (cacheKey t (contentVersion src)) = view s (cacheKey t (contentVersion src))"
  using assms
proof (induction ps arbitrary: s)
  case (Cons p ps)
  obtain t' src' rules' where p: "p = (t', src', rules')" by (cases p) auto
  with Cons.prems have "cacheKey t (contentVersion src) \<noteq> cacheKey t' (contentVersion src')"
    by (auto simp: cacheKey_inject length_contentVersion)
  with Cons p show ?case by (simp add: view_Set)
qed simp

lemma Get_after_Sets:
  assumes "\<forall>(t', src', rules') \<in> set ps. (t', contentVersion src') \<noteq> (t, contentVersion src)"
  shows "cache_Get ops u t (contentVersion src) LinkUp (set_all ops ps (fst (cache_Set ops t src rules LinkUp s))) =
    recompile u (valid_text src)"
  by (rule Get_entry) (simp add: view_set_all [OF assms] view_Set)

end

subsection \<open>Words that a scan reads back\<close>

lemma plain_runes:
  assumes "plain_format s"
  shows "runes s = map byte_val s" "\<forall>r \<in> set (runes s). \<not> is_space_rune r" "concat (map encode_rune (runes s)) = s"
proof -
  have "is_ascii s" using assms unfolding plain_format_def is_ascii_def by (rule list.pred_mono_strong) linarith
  then show r: "runes s = map byte_val s" by (rule runes_ascii)
  have "32 < b \<Longrightarrow> b < 127 \<Longrightarrow> \<not> is_space_rune b" for b by (simp add: is_space_rune_def)
  with assms show "\<forall>r \<in> set (runes s). \<not> is_space_rune r"
    unfolding r plain_format_def list_all_iff by fastforce
  show "concat (map encode_rune (runes s)) = s"
    using valid_text_ascii [OF \<open>is_ascii s\<close>] by (simp add: valid_text_def)
qed

lemma scan_word_plain: "plain_format s \<Longrightarrow> scan_word (runes s) = s"
proof -
  assume s: "plain_format s"
  note sp = plain_runes(2) [OF s]
  have no: "\<not> is_space_rune r \<Longrightarrow> r \<noteq> 10 \<and> r \<noteq> 13" for r by (auto simp: is_space_rune_def)
  have all: "takeWhile (\<lambda>r. \<not> is_space_rune r) (runes s) = runes s" using sp by (simp add: takeWhile_eq_all_conv)
  show ?thesis
  proof (cases "runes s")
    case Nil
    with plain_runes(3) [OF s] show ?thesis by (simp add: scan_word.simps)
  next
    case (Cons r rs)
    with sp no have r: "\<not> is_space_rune r" "r \<noteq> 10" "r \<noteq> 13" by auto
    then have "scan_word (runes s) = concat (map encode_rune (takeWhile (\<lambda>r. \<not> is_space_rune r) (runes s)))"
      unfolding Cons by (subst scan_word.simps) simp
    then show ?thesis using all plain_runes(3) [OF s] by simp
  qed
qed

lemma plain_append: "plain_format (a @ b) \<longleftrightarrow> plain_format a \<and> plain_format b"
  by (simp add: plain_format_def)

lemma plain_hex: "plain_format (hex_bytes s)"
proof -
  have "list_all (\<lambda>n. plain_format [hex_digit n]) [0, 1, 2, 3, 4, 5, 6, 7, 8, 9, 10, 11, 12, 13, 14, 15]"
    by code_simp
  moreover have "n \<in> set [0, 1, 2, 3, 4, 5, 6, 7, 8, 9, 10, 11, 12, 13, 14, 15]" if "0 \<le> n" "n < 16" for n :: int
    using that by simp presburger
  ultimately have digit: "plain_format [hex_digit n]" if "0 \<le> n" "n < 16" for n
    using that unfolding list_all_iff by blast
  have "plain_format [hex_digit (byte_val c div 16), hex_digit (byte_val c mod 16)]" for c
  proof -
    have "0 \<le> byte_val c div 16" "byte_val c div 16 < 16" "0 \<le> byte_val c mod 16" "byte_val c mod 16 < 16"
      using byte_val_bounds [of c] by (auto simp: pos_imp_zdiv_nonneg_iff div_less_iff_less_mult)
    then show ?thesis using digit by (simp add: plain_format_def)
  qed
  then show ?thesis by (induction s) (simp_all add: hex_bytes_def plain_format_def)
qed

lemma plain_colon: "plain_format '':''"
  by code_simp

subsection \<open>Properties\<close>

text \<open>
  C19: a loaded policy can be taken from the cache.  After the watcher has loaded a source in UTF-8
  and published it, \<open>Get\<close> with the tenant of the policy and the version of the source gives
  the rules the watcher made active, whatever other tenants and versions publish in
  between.
\<close>

theorem cache_serves_loaded_policy:
  assumes "string_store ops view" and "load u (Inr src) = Inr (b, src)" and "valid_text src = src"
    and "\<forall>(t', src', rules') \<in> set ps. (t', contentVersion src') \<noteq> (b_tenant_id b, contentVersion src)"
    and "cached_reload ops u (Inr src) LinkUp (w, s) = (w', s')"
  shows "cache_Get ops u (b_tenant_id b) (contentVersion src) LinkUp (set_all ops ps s') =
    Inr (Some (b_rules (w_bundle w')))"
proof -
  have s': "s' = fst (cache_Set ops (b_tenant_id b) src (b_rules b) LinkUp s)" and w': "w_bundle w' = b"
    using assms(2,5) by (auto simp: cached_reload_def publish_bundle_def cache_Set_def reload_def Let_def)
  from assms(2) have "recompile u src = Inr (Some (b_rules b))"
    by (auto simp: recompile_def load_def split: sum.split_asm)
  then show ?thesis using string_store.Get_after_Sets [OF assms(1,4), of u "b_rules b" s] by (simp add: s' w' assms(3))
qed

lemma sample_ascii: "is_ascii (print_policy sample_policy)"
  by code_simp

lemma cache_serves_loaded_policy_witness:
  "cache_Get mem_strings no_case ''acme-corp'' (contentVersion (print_policy sample_policy)) LinkUp
     (set_all mem_strings [(''dev'', ''policy'', [])]
       (snd (cached_reload mem_strings no_case (Inr (print_policy sample_policy)) LinkUp (sample_watcher, [])))) =
   Inr (Some (b_rules (w_bundle
     (fst (cached_reload mem_strings no_case (Inr (print_policy sample_policy)) LinkUp (sample_watcher, []))))))"
proof -
  have t: "b_tenant_id sample_bundle = ''acme-corp''" by (simp add: sample_bundle_def)
  have others: "\<forall>(t', src', rules') \<in> set [(''dev'', ''policy'', [] :: compiled_rule list)].
      (t', contentVersion src') \<noteq> (b_tenant_id sample_bundle, contentVersion (print_policy sample_policy))"
    by (simp add: t)
  show ?thesis
    by (rule cache_serves_loaded_policy [OF mem.string_store_axioms load_sample valid_text_ascii [OF sample_ascii]
          others prod.collapse [symmetric], unfolded t])
qed

text \<open>
  C31: one tenant can be given the policy of another.  The keys of a tenant whose name goes on
  with a colon match the pattern of the shorter tenant: with nothing else in the cache,
  \<open>LatestVersion\<close> of the shorter one returns a version that reaches into the longer name,
  and \<open>Get\<close> with it returns the rules the longer tenant published.
\<close>

theorem latest_version_crosses_tenants:
  assumes "string_store ops view" and "view s = Map.empty"
    and "glob_literal t" and "plain_format t" and "plain_format x"
    and "cache_Set ops (t @ '':'' @ x) src rules LinkUp s = (s', None)"
  defines "v \<equiv> x @ '':'' @ contentVersion src"
  shows "LatestVersion scan ops t LinkUp s' = Inr v \<and>
    cache_Get ops u t v LinkUp s' = cache_Get ops u (t @ '':'' @ x) (contentVersion src) LinkUp s'"
proof
  let ?p = "''policy:'' @ t @ '':''"
  have key: "cacheKey (t @ '':'' @ x) (contentVersion src) = ?p @ v" by (simp add: cacheKey_def v_def)
  have s': "s' = fst (cache_Set ops (t @ '':'' @ x) src rules LinkUp s)" using assms(6) by simp
  have "dom (view s') = {?p @ v}"
    unfolding s' string_store.view_Set [OF assms(1)] key assms(2) by simp
  moreover have "glob_literal ?p" using assms(3) by (simp add: glob_literal_def)
  ultimately have keys: "set (str_keys ops s' (''policy:'' @ t @ '':*'')) = {?p @ v}"
    using string_store.str_keys [OF assms(1), of ?p s'] by (auto simp: has_prefix_iff)
  then obtain ks where "str_keys ops s' (''policy:'' @ t @ '':*'') = (?p @ v) # ks"
    by (cases "str_keys ops s' (''policy:'' @ t @ '':*'')") auto
  moreover have "plain_format v"
    unfolding v_def plain_append contentVersion_def using assms(5) plain_colon plain_hex by blast
  then have "Sscanf_word ?p (?p @ v) = v"
    unfolding Sscanf_word_def has_prefix_iff by (auto simp: scan_word_plain)
  ultimately show "LatestVersion scan ops t LinkUp s' = Inr v" by (simp add: LatestVersion_def assms(4))
  show "cache_Get ops u t v LinkUp s' = cache_Get ops u (t @ '':'' @ x) (contentVersion src) LinkUp s'"
    by (simp add: cache_Get_def cacheKey_def v_def)
qed

lemma latest_version_crosses_tenants_witness:
  "LatestVersion (\<lambda>_ _. []) mem_strings ''acme'' LinkUp
     (fst (cache_Set mem_strings (''acme'' @ '':'' @ ''corp'') (print_policy sample_policy) [] LinkUp [])) =
   Inr (''corp'' @ '':'' @ contentVersion (print_policy sample_policy))"
proof -
  have ok: "glob_literal ''acme''" "plain_format ''acme''" "plain_format ''corp''" by code_simp+
  have set: "cache_Set mem_strings (''acme'' @ '':'' @ ''corp'') src [] LinkUp [] =
      (fst (cache_Set mem_strings (''acme'' @ '':'' @ ''corp'') src [] LinkUp []), None)" for src
    by (simp add: cache_Set_def Let_def)
  show ?thesis
    using latest_version_crosses_tenants [OF mem.string_store_axioms _ ok set] by simp
qed

end
