(* ===== verification/Mock_Server.thy ===== *)
theory Mock_Server
  imports Gateway_Safety
begin

text \<open>
  The mock model server, \<open>cmd/mockllm/main.go\<close>, and what the gateway's mock adapter gets from
  it.  A handler is a function on the response of theory \<open>Gateway\<close>; the table of printable
  runes is the one of \<open>%q\<close>; the delays between the events have no effect.  The query string
  is given by what \<open>Query().Get\<close> returns.
\<close>

subsection \<open>The handlers\<close>

definition http_Error :: "string \<Rightarrow> int \<Rightarrow> response \<Rightarrow> response" where
  "http_Error msg code rs =
     fst (http_Write
       (http_WriteHeader code
         (Header_Set ''X-Content-Type-Options'' ''nosniff''
           (Header_Set ''Content-Type'' ''text/plain; charset=utf-8'' rs))) (msg @ [NL]))"

text \<open>The request struct is the one of the gateway: one field \<open>prompt\<close>.\<close>

definition generate_request :: "bytes \<Rightarrow> unit json_error + bytes" where
  "generate_request body = decode_into store_request [] body None"

definition mock_reply :: "(int \<Rightarrow> bool) \<Rightarrow> bytes \<Rightarrow> bytes" where
  "mock_reply table prompt =
     ''Mock response to: '' @ Quote table prompt @ ''. This is a simulated LLM reply for local development.''"

definition handleGenerate :: "(int \<Rightarrow> bool) \<Rightarrow> string \<Rightarrow> bytes \<Rightarrow> response \<Rightarrow> response" where
  "handleGenerate table meth body rs =
     (if meth \<noteq> ''POST'' then http_Error ''method not allowed'' 405 rs
      else
        (case generate_request body of
           Inl _ \<Rightarrow> http_Error ''bad request'' 400 rs
         | Inr prompt \<Rightarrow>
             (let words = string_fields prompt
              in fst (http_Write (Header_Set ''Content-Type'' ''application/json'' rs)
                   (json_encode (JObject
                      [(''response'', JString (mock_reply table prompt)),
                       (''model'', JString ''mock-llm-v1''),
                       (''input_tokens'', JNumber (itoa (int (length words)))),
                       (''output_tokens'', JNumber (itoa 45))]) @ [NL])))))"

definition stream_text :: "(int \<Rightarrow> bool) \<Rightarrow> bool \<Rightarrow> bytes \<Rightarrow> bytes" where
  "stream_text table unsafe prompt =
     ''Mock streaming response to: '' @ Quote table prompt @ ''. This is a simulated token-by-token reply.'' @
     (if unsafe then '' Contact us at leaked.secret@internal-corp.com for more info.'' else [])"

definition mock_handleStream ::
  "(int \<Rightarrow> bool) \<Rightarrow> (string \<Rightarrow> string) \<Rightarrow> string \<Rightarrow> bytes \<Rightarrow> response \<Rightarrow> response" where
  "mock_handleStream table query meth body rs =
     (if meth \<noteq> ''POST'' then http_Error ''method not allowed'' 405 rs
      else
        (case generate_request body of
           Inl _ \<Rightarrow> http_Error ''bad request'' 400 rs
         | Inr prompt \<Rightarrow>
             (let words = string_fields (stream_text table (query ''unsafe'' = ''true'') prompt);
                  rs = http_WriteHeader 200
                    (Header_Set ''Connection'' ''keep-alive''
                      (Header_Set ''Cache-Control'' ''no-cache''
                        (Header_Set ''Content-Type'' ''text/event-stream'' rs)));
                  rs = fold (\<lambda>w rs. fst (http_Write rs (''data: '' @ w @ '' '' @ [NL, NL]))) words rs
              in fst (http_Write rs (''data: [DONE]'' @ [NL, NL])))))"

text \<open>The routes of \<open>main\<close>; \<open>other\<close> is what the multiplexer does with the remaining paths.\<close>

definition mock_mux ::
  "(int \<Rightarrow> bool) \<Rightarrow> (response \<Rightarrow> response) \<Rightarrow> string \<Rightarrow> (string \<Rightarrow> string) \<Rightarrow> string \<Rightarrow> bytes \<Rightarrow> response \<Rightarrow> response" where
  "mock_mux table other path query meth body rs =
     (if path = ''/generate'' then handleGenerate table meth body rs
      else if path = ''/stream'' then mock_handleStream table query meth body rs
      else if path = ''/healthz'' then
        fst (http_Write rs (''{'' @ qt ''status'' @ '':'' @ qt ''ok'' @ ''}''))
      else other rs)"

subsection \<open>The server as the adapter's backend\<close>

definition new_response :: response where
  "new_response = \<lparr>rs_headers = (\<lambda>_. None), rs_sent = None, rs_body = [], rs_conn = None\<rparr>"

text \<open>
  An exchange with the server at \<open>base\<close>: the adapter always posts; the body arrives in what
  \<open>pieces\<close> makes of it.
\<close>

definition mock_exchange ::
  "(int \<Rightarrow> bool) \<Rightarrow> (response \<Rightarrow> response) \<Rightarrow> (string \<Rightarrow> string) \<Rightarrow> (bytes \<Rightarrow> bytes list) \<Rightarrow> string \<Rightarrow> http_client" where
  "mock_exchange table other query pieces base rq =
     (let path = drop (length base) (hq_url rq);
          rs = mock_mux table other path query ''POST'' (hq_body rq) new_response
      in Response \<lparr>hr_status = (case rs_sent rs of Some (st, _) \<Rightarrow> st | None \<Rightarrow> 200),
                   hr_reads = pieces (rs_body rs), hr_error = None\<rparr>)"

subsection \<open>What it answers\<close>

lemma http_Write_open:
  "rs_conn rs = None \<Longrightarrow> rs_body (fst (http_Write rs p)) = rs_body rs @ p \<and> rs_conn (fst (http_Write rs p)) = None \<and>
     rs_sent (fst (http_Write rs p)) = rs_sent (http_WriteHeader 200 rs)"
  by (simp add: http_Write_def Let_def)

lemma Header_Set_sel [simp]:
  "rs_body (Header_Set k v rs) = rs_body rs" "rs_conn (Header_Set k v rs) = rs_conn rs"
  "rs_sent (Header_Set k v rs) = rs_sent rs"
  by (simp_all add: Header_Set_def)

lemma decode_posted_prompt: "generate_request (mock_request prompt) = Inr (valid_text prompt)"
proof -
  have "valid_text ''prompt'' = ''prompt''" by (rule valid_text_ascii) code_simp
  then show ?thesis
    using decode_into_encode [of "JObject [(''prompt'', JString prompt)]" store_request "[]" "[]" "None :: unit option"]
    by (simp add: generate_request_def mock_request_def store_struct_def store_request_def store_string_def)
qed

lemma fold_events:
  "rs_conn rs = None \<Longrightarrow> rs_sent rs = Some st \<Longrightarrow>
   (let rs' = fold (\<lambda>w rs. fst (http_Write rs (''data: '' @ w @ '' '' @ [NL, NL]))) ws rs
    in rs_conn rs' = None \<and> rs_sent rs' = Some st \<and>
       rs_body rs' = rs_body rs @ concat (map (\<lambda>w. sse_event (w @ '' '')) ws))"
proof (induction ws arbitrary: rs)
  case (Cons w ws)
  let ?rs = "fst (http_Write rs (''data: '' @ w @ '' '' @ [NL, NL]))"
  have "rs_conn ?rs = None" "rs_sent ?rs = Some st" "rs_body ?rs = rs_body rs @ sse_event (w @ '' '')"
    using http_Write_open [OF Cons.prems(1)] Cons.prems(2) by (simp_all add: http_WriteHeader_def sse_event_def)
  from Cons.IH [OF this(1,2)] this(3) show ?case by (simp add: Let_def)
qed (simp add: Let_def)

definition stream_body :: "(int \<Rightarrow> bool) \<Rightarrow> bool \<Rightarrow> bytes \<Rightarrow> bytes" where
  "stream_body table unsafe prompt =
     concat (map (\<lambda>w. sse_event (w @ '' '')) (string_fields (stream_text table unsafe prompt))) @ sse_done"

lemma mock_stream_exchange:
  "mock_exchange table other query pieces base (mock_http \<lparr>ma_base_url = base\<rparr> ''/stream'' prompt) =
    Response \<lparr>hr_status = 200, hr_reads = pieces (stream_body table (query ''unsafe'' = ''true'') (valid_text prompt)), hr_error = None\<rparr>"
proof -
  let ?ws = "string_fields (stream_text table (query ''unsafe'' = ''true'') (valid_text prompt))"
  let ?rs = "http_WriteHeader 200
    (Header_Set ''Connection'' ''keep-alive''
      (Header_Set ''Cache-Control'' ''no-cache'' (Header_Set ''Content-Type'' ''text/event-stream'' new_response)))"
  have "rs_conn ?rs = None" "\<exists>hs. rs_sent ?rs = Some (200, hs)" "rs_body ?rs = []"
    by (simp_all add: new_response_def http_WriteHeader_def Header_Set_def)
  then obtain hs where rs: "rs_conn ?rs = None" "rs_sent ?rs = Some (200, hs)" "rs_body ?rs = []" by blast
  let ?rs' = "fold (\<lambda>w rs. fst (http_Write rs (''data: '' @ w @ '' '' @ [NL, NL]))) ?ws ?rs"
  have rs': "rs_conn ?rs' = None" "rs_sent ?rs' = Some (200, hs)"
    "rs_body ?rs' = concat (map (\<lambda>w. sse_event (w @ '' '')) ?ws)"
    using fold_events [OF rs(1,2), of ?ws] rs(3) by (simp_all add: Let_def)
  have m: "mock_mux table other ''/stream'' query ''POST'' (mock_request prompt) new_response =
      fst (http_Write ?rs' (''data: [DONE]'' @ [NL, NL]))"
    by (simp add: mock_mux_def mock_handleStream_def decode_posted_prompt Let_def)
  show ?thesis
    unfolding mock_exchange_def mock_http_def
    using http_Write_open [OF rs'(1), of "''data: [DONE]'' @ [NL, NL]"] rs'(2,3)
    by (simp add: m Let_def http_WriteHeader_def stream_body_def sse_done_def)
qed

lemma reply_keys [simp]:
  "valid_text ''response'' = ''response''" "valid_text ''model'' = ''model''"
  "valid_text ''input_tokens'' = ''input_tokens''" "valid_text ''output_tokens'' = ''output_tokens''"
  "valid_text ''mock-llm-v1'' = ''mock-llm-v1''"
  "\<not> field_matches ''model'' ''response''" "\<not> field_matches ''input_tokens'' ''response''"
  "\<not> field_matches ''input_tokens'' ''model''" "\<not> field_matches ''output_tokens'' ''response''"
  "\<not> field_matches ''output_tokens'' ''model''" "\<not> field_matches ''output_tokens'' ''input_tokens''"
  by (rule valid_text_ascii, code_simp)+ code_simp+

definition mock_reply_json :: "(int \<Rightarrow> bool) \<Rightarrow> bytes \<Rightarrow> json" where
  "mock_reply_json table prompt =
     JObject
       [(''response'', JString (mock_reply table prompt)), (''model'', JString ''mock-llm-v1''),
        (''input_tokens'', JNumber (itoa (int (length (string_fields prompt))))),
        (''output_tokens'', JNumber (itoa 45))]"

lemma mock_generate_exchange:
  "mock_exchange table other query pieces base (mock_http \<lparr>ma_base_url = base\<rparr> ''/generate'' prompt) =
    Response \<lparr>hr_status = 200, hr_reads = pieces (json_encode (mock_reply_json table (valid_text prompt)) @ [NL]), hr_error = None\<rparr>"
proof -
  have "mock_mux table other ''/generate'' query ''POST'' (mock_request prompt) new_response =
      fst (http_Write (Header_Set ''Content-Type'' ''application/json'' new_response)
        (json_encode (mock_reply_json table (valid_text prompt)) @ [NL]))"
    by (simp add: mock_mux_def handleGenerate_def decode_posted_prompt mock_reply_json_def Let_def)
  moreover have "rs_conn (Header_Set ''Content-Type'' ''application/json'' new_response) = None"
    by (simp add: new_response_def)
  ultimately show ?thesis
    unfolding mock_exchange_def mock_http_def
    using http_Write_open [of "Header_Set ''Content-Type'' ''application/json'' new_response"
        "json_encode (mock_reply_json table (valid_text prompt)) @ [NL]"]
    by (simp add: Let_def http_WriteHeader_def new_response_def split: option.split)
qed

lemma mock_reply_read:
  assumes "int64_ok (int (length (string_fields prompt)))"
  shows "mock_response (json_encode (mock_reply_json table prompt) @ [NL]) None =
    Inr \<lparr>gr_text = valid_text (mock_reply table prompt), gr_input_tokens = int (length (string_fields prompt)),
         gr_output_tokens = 45, gr_model = ''mock-llm-v1''\<rparr>"
proof -
  have "writable (mock_reply_json table prompt)" "json_depth (mock_reply_json table prompt) \<le> 10000" "\<not> is_scalar (mock_reply_json table prompt)"
    by (simp_all add: mock_reply_json_def number_text_itoa)
  note dec = decode_into_encode [OF this, of store_mock_response no_result "[NL]" "None :: ext_error option"]
  have "parse_int (itoa 45) = Some 45" by (rule parse_itoa) (simp add: int64_ok_def)
  with parse_itoa [OF assms]
  have "store_struct store_mock_response (valid_json (mock_reply_json table prompt)) no_result =
      (\<lparr>gr_text = valid_text (mock_reply table prompt), gr_input_tokens = int (length (string_fields prompt)),
        gr_output_tokens = 45, gr_model = ''mock-llm-v1''\<rparr>, True)"
    by (simp add: mock_reply_json_def store_struct_def store_mock_response_def store_string_def store_int_def no_result_def)
  then show ?thesis unfolding mock_response_def dec by simp
qed

lemma string_fields_from_space:
  "string_fields_from w (a @ CHR '' '' # b) = string_fields_from w a @ string_fields_from [] b"
proof (induction w a rule: string_fields_from.induct)
  case (1 w)
  then show ?case by (simp add: decode_rune_def byte_val_def is_space_rune_def)
next
  case (2 w c cs)
  obtain r rest where d: "decode_rune c cs = (r, rest)" by (cases "decode_rune c cs") auto
  have "byte_val (CHR '' '') < 0x80" by code_simp
  from decode_rune_split [OF this, of c cs b] d
  have d': "decode_rune c (cs @ CHR '' '' # b) = (r, rest @ CHR '' '' # b)" by simp
  have le: "length rest \<le> length cs" using decode_rune_shorter [OF d] by simp
  show ?case using 2 d d' le by (simp add: Suc_diff_le)
qed

lemma string_fields_space: "string_fields (a @ CHR '' '' # b) = string_fields a @ string_fields b"
  by (simp add: string_fields_def string_fields_from_space)

lemma quote_body_split:
  assumes "byte_val x < 0x80"
  shows "quote_body table (a @ x # b) = quote_body table a @ quote_rune table (byte_val x) @ quote_body table b"
proof (induction table a rule: quote_body.induct)
  case (1 table)
  have "byte_val x \<noteq> RuneError" using assms by auto
  with assms show ?case by simp
next
  case (2 table c cs)
  obtain r rest where d: "decode_rune c cs = (r, rest)" by (cases "decode_rune c cs") auto
  with decode_rune_split [OF assms, of c cs b] have d': "decode_rune c (cs @ x # b) = (r, rest @ x # b)" by simp
  have "quote_body table (rest @ x # b) = quote_body table rest @ quote_rune table (byte_val x) @ quote_body table b"
    using 2 d by simp
  with d d' show ?case by simp
qed

text \<open>A word of printable ASCII that needs no escape.\<close>

definition plain_word :: "bytes \<Rightarrow> bool" where
  "plain_word w \<longleftrightarrow> w \<noteq> [] \<and>
     list_all (\<lambda>c. 0x20 < byte_val c \<and> byte_val c < 0x7F \<and> byte_val c \<noteq> 0x22 \<and> byte_val c \<noteq> 0x5C) w"

lemma plain_word_text:
  assumes "plain_word w"
  shows "is_ascii w" "quote_body table w = w" "string_fields w = [w]"
proof -
  have all: "list_all (\<lambda>c. 0x20 < byte_val c \<and> byte_val c < 0x7F \<and> byte_val c \<noteq> 0x22 \<and> byte_val c \<noteq> 0x5C) w"
    using assms by (simp add: plain_word_def)
  then show "is_ascii w" unfolding is_ascii_def by (rule list.pred_mono_strong) linarith
  have "plain_text w" using all unfolding plain_text_def by (rule list.pred_mono_strong) linarith
  then show "quote_body table w = w" by (rule quote_body_plain)
  have "string_fields_from u w = [u @ w]" if "w \<noteq> [] \<or> u \<noteq> []" for u
    using all that
  proof (induction w arbitrary: u)
    case (Cons c w)
    then have c: "0x20 < byte_val c" "byte_val c < 0x7F" by simp_all
    then have "\<not> is_space_rune (byte_val c)" by (simp add: is_space_rune_def)
    with c Cons.IH [of "u @ [c]"] Cons.prems show ?case by simp
  qed simp
  then show "string_fields w = [w]" using assms by (simp add: string_fields_def plain_word_def)
qed

lemma valid_text_space: "valid_text (a @ CHR '' '' # b) = valid_text a @ CHR '' '' # valid_text b"
proof -
  have "byte_val (CHR '' '') < 0x80" "encode_rune (byte_val (CHR '' '')) = '' ''" by code_simp+
  then show ?thesis by (simp add: valid_text_def runes_split_ascii)
qed

lemma quote_body_space: "quote_body table (a @ CHR '' '' # b) = quote_body table a @ CHR '' '' # quote_body table b"
proof -
  have "byte_val (CHR '' '') < 0x80" "byte_val (CHR '' '') = 32" "char_of (32 :: int) = CHR '' ''" by code_simp+
  moreover from this have "quote_rune table (byte_val (CHR '' '')) = '' ''"
    by (simp add: quote_rune_def is_print_def encode_rune_def)
  ultimately show ?thesis by (simp add: quote_body_split)
qed

text \<open>The stream of a prompt with the word \<open>w\<close> in it has an event for that word.\<close>

lemma stream_body_word:
  assumes "plain_word w"
  shows "\<exists>b. stream_body table unsafe (valid_text (p @ '' '' @ w @ '' '' @ q)) =
    concat (map (\<lambda>x. sse_event (x @ '' ''))
      (string_fields (''Mock streaming response to: '' @ [DQUOTE] @ quote_body table (valid_text p)))) @ ''data: '' @ w @ b"
proof -
  note w = plain_word_text [OF assms]
  let ?a = "''Mock streaming response to: '' @ [DQUOTE] @ quote_body table (valid_text p)"
  let ?e = "[DQUOTE] @ ''. This is a simulated token-by-token reply.'' @
    (if unsafe then '' Contact us at leaked.secret@internal-corp.com for more info.'' else [])"
  have "valid_text (p @ '' '' @ w @ '' '' @ q) = valid_text p @ '' '' @ w @ '' '' @ valid_text q"
    using valid_text_space [of p "w @ CHR '' '' # q"] valid_text_space [of w q] valid_text_ascii [OF w(1)] by simp
  then have "stream_text table unsafe (valid_text (p @ '' '' @ w @ '' '' @ q)) =
      ?a @ CHR '' '' # w @ CHR '' '' # quote_body table (valid_text q) @ ?e"
    by (simp add: stream_text_def Quote_def quote_body_space w(2))
  then have "string_fields (stream_text table unsafe (valid_text (p @ '' '' @ w @ '' '' @ q))) =
      string_fields ?a @ [w] @ string_fields (quote_body table (valid_text q) @ ?e)"
    by (simp only: string_fields_space w(3))
  then show ?thesis by (simp add: stream_body_def sse_event_def)
qed

subsection \<open>Properties\<close>

text \<open>
  A prompt survives the way to the mock server and back.  Whatever the prompt and however
  the answer is cut into reads, the adapter's request decodes to the prompt with invalid
  bytes replaced, and the adapter returns the server's reply to that prompt; the tokens
  the gateway charges for it are its words plus 45.
\<close>

theorem mock_completion_round_trip:
  assumes "\<And>b. concat (pieces b) = b" and "int (length (string_fields (valid_text prompt))) + 45 < 2 ^ 63"
  shows "\<exists>r. mock_Generate (mock_exchange table other query pieces base) \<lparr>ma_base_url = base\<rparr> prompt = Inr r \<and>
    gr_text r = valid_text (mock_reply table (valid_text prompt)) \<and>
    charged_tokens r prompt = int (length (string_fields (valid_text prompt))) + 45"
proof -
  let ?n = "int (length (string_fields (valid_text prompt)))"
  have n: "?n + 45 < 2 ^ 63" by (rule assms(2))
  then have "int64_ok ?n" by (simp add: int64_ok_def)
  from mock_reply_read [OF this, of table]
  have "mock_Generate (mock_exchange table other query pieces base) \<lparr>ma_base_url = base\<rparr> prompt = 
      Inr \<lparr>gr_text = valid_text (mock_reply table (valid_text prompt)), gr_input_tokens = ?n,
           gr_output_tokens = 45, gr_model = ''mock-llm-v1''\<rparr>"
    by (simp add: mock_Generate_def mock_generate_exchange assms(1))
  moreover have "wrap64 (?n + 45) = ?n + 45" using n by (simp add: wrap64_def)
  ultimately show ?thesis
    by (intro exI [of _ "\<lparr>gr_text = valid_text (mock_reply table (valid_text prompt)), gr_input_tokens = ?n,
        gr_output_tokens = 45, gr_model = ''mock-llm-v1''\<rparr>"] conjI) (simp_all add: charged_tokens_def)
qed

lemma mock_completion_round_trip_witness:
  "\<exists>r. mock_Generate (mock_exchange (\<lambda>_. False) id (\<lambda>_. []) (\<lambda>b. [b]) ''http://x'') \<lparr>ma_base_url = ''http://x''\<rparr> ''Hi there'' = Inr r \<and>
     gr_text r = valid_text (mock_reply (\<lambda>_. False) (valid_text ''Hi there'')) \<and>
     charged_tokens r ''Hi there'' = int (length (string_fields (valid_text ''Hi there''))) + 45"
proof (rule mock_completion_round_trip)
  have "length (string_fields (valid_text ''Hi there'')) = 2" by code_simp
  then show "int (length (string_fields (valid_text ''Hi there''))) + 45 < 2 ^ 63" by simp
qed simp


lemma demo_mail_scan: "Verdict (Scan lg ord (''Mail'' @ '' '' @ ''bob@example.com'' @ '' '' @ ''now'')) \<noteq> VerdictBlock"
proof -
  have "\<not> re_test keyword_patterns (runes (''Mail'' @ '' '' @ ''bob@example.com'' @ '' '' @ ''now''))"
    "\<not> re_test structural_patterns (runes (''Mail'' @ '' '' @ ''bob@example.com'' @ '' '' @ ''now''))"
    by code_simp+
  then show ?thesis using block_pattern by blast
qed

abbreviation demo_mail_env :: "mem_store env" where
  "demo_mail_env \<equiv> demo_env LinkUp
     (mock_StreamTo (mock_exchange (\<lambda>_. True) id (\<lambda>_. []) (\<lambda>b. [b]) ''http://x'') \<lparr>ma_base_url = ''http://x''\<rparr>)"

abbreviation demo_mail_request :: request where
  "demo_mail_request \<equiv> demo_request ''/v1/stream''\<lparr>rq_body := json_encode
     (JObject [(''prompt'', JString (''Mail'' @ '' '' @ ''bob@example.com'' @ '' '' @ ''now''))])\<rparr>"


end
