(* ===== verification/Gateway_Metrics.thy ===== *)
theory Gateway_Metrics
  imports Gateway_Answers
begin

text \<open>
  The collectors of \<open>internal/metrics/metrics.go\<close> and what the gateway reports to them.  A
  collector is what the code passes to \<open>promauto\<close>; an update with \<open>WithLabelValues\<close> is an
  event of theory \<open>Gateway_Events\<close>.
\<close>

subsection \<open>The collectors\<close>

datatype metric_kind = CounterVec | HistogramVec

datatype buckets = DefBuckets | Buckets "rat list"

record collector =
  co_kind :: metric_kind
  co_name :: string
  co_help :: string
  co_buckets :: buckets
  co_labels :: "string list"

definition NewCounterVec :: "string \<Rightarrow> string \<Rightarrow> string list \<Rightarrow> collector" where
  "NewCounterVec name help labels =
     \<lparr>co_kind = CounterVec, co_name = name, co_help = help, co_buckets = Buckets [], co_labels = labels\<rparr>"

definition NewHistogramVec :: "string \<Rightarrow> string \<Rightarrow> buckets \<Rightarrow> string list \<Rightarrow> collector" where
  "NewHistogramVec name help bs labels =
     \<lparr>co_kind = HistogramVec, co_name = name, co_help = help, co_buckets = bs, co_labels = labels\<rparr>"

definition RequestsTotal_vec :: collector where
  "RequestsTotal_vec =
     NewCounterVec ''gateway_requests_total'' ''Total number of requests handled by the gateway.''
       [''tenant'', ''status_code'', ''path'']"

definition RequestDuration_vec :: collector where
  "RequestDuration_vec =
     NewHistogramVec ''gateway_request_duration_seconds'' ''End-to-end request duration in seconds.'' DefBuckets
       [''tenant'', ''path'']"

definition GuardrailBlocksTotal_vec :: collector where
  "GuardrailBlocksTotal_vec =
     NewCounterVec ''guardrail_blocks_total'' ''Total requests blocked by the guardrail scanner.''
       [''tenant'', ''stage'']"

definition PolicyEvaluationsTotal_vec :: collector where
  "PolicyEvaluationsTotal_vec =
     NewCounterVec ''policy_evaluations_total'' ''Total policy evaluations by verdict.'' [''tenant'', ''verdict'']"

definition StreamAbortsTotal_vec :: collector where
  "StreamAbortsTotal_vec =
     NewCounterVec ''stream_aborts_total'' ''Total streams aborted due to unsafe output detected.'' [''tenant'']"

definition StreamTTFTSeconds_vec :: collector where
  "StreamTTFTSeconds_vec =
     NewHistogramVec ''gateway_stream_ttft_seconds'' ''Time to first token/chunk sent to client in seconds.''
       (Buckets [1/100, 1/40, 1/20, 1/10, 15/100, 1/5, 1/4, 1/2, 1, 5/2]) [''tenant'']"

definition StreamInterChunkDurationSeconds_vec :: collector where
  "StreamInterChunkDurationSeconds_vec =
     NewHistogramVec ''gateway_stream_inter_chunk_duration_seconds''
       ''Duration between consecutive stream chunks sent to client in seconds.''
       (Buckets [5/1000, 1/100, 1/50, 3/100, 1/20, 75/1000, 1/10, 1/5, 1/2]) [''tenant'']"

definition StreamCheckDurationSeconds_vec :: collector where
  "StreamCheckDurationSeconds_vec =
     NewHistogramVec ''gateway_stream_check_duration_seconds''
       ''Guardrail output scanning duration per chunk in seconds.''
       (Buckets [5/100000, 1/10000, 25/100000, 5/10000, 1/1000, 25/10000, 5/1000, 1/100, 25/1000]) [''tenant'']"

definition RateLimitHitsTotal_vec :: collector where
  "RateLimitHitsTotal_vec =
     NewCounterVec ''rate_limit_hits_total'' ''Total requests rejected by rate limiting or daily quota.''
       [''tenant'', ''kind'']"

definition collectors :: "collector list" where
  "collectors =
     [RequestsTotal_vec, RequestDuration_vec, GuardrailBlocksTotal_vec, PolicyEvaluationsTotal_vec,
      StreamAbortsTotal_vec, StreamTTFTSeconds_vec, StreamInterChunkDurationSeconds_vec,
      StreamCheckDurationSeconds_vec, RateLimitHitsTotal_vec]"

lemmas collector_defs =
  RequestsTotal_vec_def RequestDuration_vec_def GuardrailBlocksTotal_vec_def PolicyEvaluationsTotal_vec_def
  StreamAbortsTotal_vec_def StreamTTFTSeconds_vec_def StreamInterChunkDurationSeconds_vec_def
  StreamCheckDurationSeconds_vec_def RateLimitHitsTotal_vec_def NewCounterVec_def NewHistogramVec_def

text \<open>
  What \<open>promauto\<close> asks of the collectors, so that the registration at start does not panic: no
  name twice and increasing buckets.
\<close>

lemma collectors_registrable:
  "distinct (map co_name collectors)"
  "list_all (\<lambda>c. case co_buckets c of DefBuckets \<Rightarrow> True | Buckets bs \<Rightarrow> sorted_wrt (<) bs) collectors"
  by (simp_all add: collectors_def collector_defs)

subsection \<open>Updates\<close>

text \<open>
  An event a collector accepts: \<open>WithLabelValues\<close> panics unless there is one value for each
  label.
\<close>

definition accepts :: "metric_kind \<Rightarrow> string \<Rightarrow> string list \<Rightarrow> bool" where
  "accepts k name ls \<longleftrightarrow>
     list_ex (\<lambda>c. co_kind c = k \<and> co_name c = name \<and> length (co_labels c) = length ls) collectors"

fun registered :: "event \<Rightarrow> bool" where
  "registered (Log lv msg) = True"
| "registered (Inc name ls) = accepts CounterVec name ls"
| "registered (Observe name ls) = accepts HistogramVec name ls"

lemma accepts_known [simp]:
  "accepts CounterVec ''gateway_requests_total'' [a, b, c]" "accepts HistogramVec ''gateway_request_duration_seconds'' [a, b]"
  "accepts CounterVec ''guardrail_blocks_total'' [a, b]" "accepts CounterVec ''policy_evaluations_total'' [a, b]"
  "accepts CounterVec ''stream_aborts_total'' [a]" "accepts CounterVec ''rate_limit_hits_total'' [a, b]"
  "accepts HistogramVec ''gateway_stream_ttft_seconds'' [a]"
  "accepts HistogramVec ''gateway_stream_inter_chunk_duration_seconds'' [a]"
  "accepts HistogramVec ''gateway_stream_check_duration_seconds'' [a]"
  by (simp_all add: accepts_def collectors_def collector_defs)

text \<open>The counter of requests.\<close>

fun counts_request :: "event \<Rightarrow> bool" where
  "counts_request (Inc name ls) = (name = ''gateway_requests_total'')"
| "counts_request _ = False"

text \<open>A state that has reported, since \<open>base\<close>, only events for which \<open>quiet\<close> holds.\<close>

definition quiet :: "event \<Rightarrow> bool" where
  "quiet e \<longleftrightarrow> registered e \<and> \<not> counts_request e"

definition quiet_since :: "event list \<Rightarrow> 's hstate \<Rightarrow> bool" where
  "quiet_since base h \<longleftrightarrow> (\<exists>es. h_events h = base @ es \<and> list_all quiet es)"

lemma quiet_refl: "quiet_since (h_events h) h"
  by (simp add: quiet_since_def)

lemma quiet_emit: "quiet_since base h \<Longrightarrow> list_all quiet es \<Longrightarrow> quiet_since base (emit es h)"
  unfolding quiet_since_def emit_def by auto

lemma quiet_log: "quiet_since base h \<Longrightarrow> quiet_since base (log_h sv lv msg h)"
  unfolding log_h_def by (rule quiet_emit) (simp_all add: log_event_def quiet_def)

lemma quiet_same [simp]:
  "quiet_since base (set_header k v h) = quiet_since base h" "quiet_since base (rw_WriteHeader c h) = quiet_since base h"
  "quiet_since base (h\<lparr>h_store := st\<rparr>) = quiet_since base h" "quiet_since base (h\<lparr>h_calls := cs\<rparr>) = quiet_since base h"
  "quiet_since base (h\<lparr>h_status := n\<rparr>) = quiet_since base h"
  by (simp_all add: quiet_since_def set_header_def rw_WriteHeader_def)

lemma quiet_hw_Write [simp]: "quiet_since base (fst (hw_Write h p)) = quiet_since base h"
  by (simp add: quiet_since_def hw_Write_def split: prod.split)

lemma quiet_responses [simp]:
  "quiet_since base (send p h) = quiet_since base h" "quiet_since base (writeJSON c v h) = quiet_since base h"
  "quiet_since base (writeError c e i h) = quiet_since base h"
  by (simp_all add: send_def writeJSON_def writeError_def)

lemma quiet_add_usage: "quiet_since base h \<Longrightarrow> quiet_since base (add_usage sv env t n h)"
  by (simp add: add_usage_def quiet_log split: option.split prod.split sum.split)

lemmas quiet_intros = quiet_emit quiet_log quiet_add_usage

subsection \<open>The writer of a stream and the handlers report quietly\<close>

lemma quiet_stream_events [simp]:
  "quiet (GuardrailBlocksTotal [a, b])" "quiet (PolicyEvaluationsTotal [a, b])"
  "quiet (StreamAbortsTotal [a])" "quiet (RateLimitHitsTotal [a, b])"
  "quiet (StreamTTFTSeconds [a])" "quiet (StreamInterChunkDurationSeconds [a])"
  "quiet (StreamCheckDurationSeconds [a])"
  by (simp_all add: quiet_def)

lemma quiet_cw: "quiet_since base (cw_dst (fst (cw_hstate cw p))) = quiet_since base (cw_dst cw)"
  using quiet_hw_Write [of base "cw_dst cw" p]
  by (cases "hw_Write (cw_dst cw) p") (simp add: countWriter_Write_def)

lemma quiet_ww_Write:
  assumes "quiet_since base (ww_dst ww)"
  shows "quiet_since base (ww_dst (fst (ww_Write sv t ww p)))"
proof -
  obtain w' cw' st e where fl: "Flush cw_hstate (fst (Window_Write (ww_win ww) p)) \<lparr>cw_dst = ww_dst ww, cw_written = 0\<rparr>
      = (w', cw', st, e)" by (metis prod_cases4)
  have "quiet_since base (cw_dst cw')"
    using Flush_dst [of cw_hstate "fst (Window_Write (ww_win ww) p)" "\<lparr>cw_dst = ww_dst ww, cw_written = 0\<rparr>"] fl
      quiet_cw [of base "\<lparr>cw_dst = ww_dst ww, cw_written = 0\<rparr>"] assms by auto
  with assms show ?thesis by (simp add: ww_Write_def fl Let_def quiet_intros split: option.split)
qed

lemma quiet_finish:
  assumes "quiet_since base (ww_dst ww)"
  shows "quiet_since base (finish_stream sv env i t ww err)"
proof -
  obtain w' cw' st e where dr: "DrainSafe cw_hstate (ww_win ww) \<lparr>cw_dst = ww_dst ww, cw_written = 0\<rparr>
      = (w', cw', st, e)" by (metis prod_cases4)
  have "quiet_since base (cw_dst cw')"
    using DrainSafe_dst [of cw_hstate "ww_win ww" "\<lparr>cw_dst = ww_dst ww, cw_written = 0\<rparr>"] dr
      quiet_cw [of base "\<lparr>cw_dst = ww_dst ww, cw_written = 0\<rparr>"] assms by auto
  with assms show ?thesis
    by (simp add: finish_stream_def dr Let_def abort_metrics_def quiet_intros split: option.split)
qed

lemma quiet_run_stream:
  assumes "stream_source (e_stream env)" and "quiet_since base h"
  shows "quiet_since base (run_stream sv env i t prompt h)"
proof -
  let ?h = "(start_stream i h)\<lparr>h_calls := h_calls h @ [StreamTo prompt]\<rparr>"
  have start: "quiet_since base (ww_dst (new_windowWriter sv ?h))"
    using assms(2) by (simp add: new_windowWriter_def start_stream_def)
  have "quiet_since base (ww_dst (fst (e_stream env prompt (ww_Write sv t) (new_windowWriter sv ?h))))"
    by (rule stream_source.preserves [where I = "\<lambda>ww. quiet_since base (ww_dst ww)", OF assms(1) quiet_ww_Write start])
  moreover have "h_calls (start_stream i h) = h_calls h" by (simp add: start_stream_def set_header_def rw_WriteHeader_def)
  ultimately show ?thesis by (simp add: run_stream_def Let_def case_prod_beta quiet_finish)
qed

lemma quiet_guard:
  "guard_prompt sv env i t prompt h = Inl h' \<Longrightarrow> quiet_since base h \<Longrightarrow> quiet_since base h'"
  "guard_prompt sv env i t prompt h = Inr h' \<Longrightarrow> quiet_since base h \<Longrightarrow> quiet_since base h'"
  by (auto simp: guard_prompt_def Let_def quiet_intros split: if_splits)

lemma quiet_handleComplete: "quiet_since base h \<Longrightarrow> quiet_since base (handleComplete sv env ctx rq h)"
  by (auto simp: handleComplete_def Let_def intro!: quiet_intros dest: quiet_guard split: front.split sum.split)
    (blast dest: quiet_guard)

lemma quiet_handleStream:
  "stream_source (e_stream env) \<Longrightarrow> quiet_since base h \<Longrightarrow> quiet_since base (handleStream sv env ctx rq h)"
  by (auto simp: handleStream_def Let_def intro!: quiet_run_stream dest: quiet_guard split: front.split sum.split)

lemma quiet_admit:
  "quiet_since base h \<Longrightarrow>
   (case admit sv env rq ctx h of Inl h' \<Rightarrow> quiet_since base h' | Inr (_, _, h') \<Rightarrow> quiet_since base h')"
  by (auto simp: admit_def check_rate_def check_quota_def quiet_intros split: sum.split prod.split option.split)

lemma quiet_mux:
  "stream_source (e_stream env) \<Longrightarrow> rq_path rq \<in> {''/v1/complete'', ''/v1/stream'', ''/healthz''} \<Longrightarrow>
   quiet_since base h \<Longrightarrow> quiet_since base (mux sv env ctx rq h)"
  by (auto simp: mux_def handleHealth_def quiet_handleComplete quiet_handleStream)

subsection \<open>The recorded status is the one that was sent\<close>

definition fresh :: "'s hstate \<Rightarrow> bool" where
  "fresh h \<longleftrightarrow> status_of h = None \<and> h_status h = 200"

definition synced :: "'s hstate \<Rightarrow> bool" where
  "synced h \<longleftrightarrow> status_of h = Some (h_status h)"

lemma h_status_same [simp]:
  "h_status (emit es h) = h_status h" "h_status (log_h sv lv msg h) = h_status h"
  "h_status (set_header k v h) = h_status h" "h_status (rw_WriteHeader c h) = c"
  by (simp_all add: emit_def log_h_def set_header_def rw_WriteHeader_def)

lemma h_status_hw_Write [simp]: "h_status (fst (hw_Write h p)) = h_status h"
  by (simp add: hw_Write_def split: prod.split)

lemma h_status_send [simp]: "h_status (send p h) = h_status h" "h_status (writeJSON c v h) = c"
  by (simp_all add: send_def writeJSON_def)

lemma h_status_add_usage [simp]: "h_status (add_usage sv env t n h) = h_status h"
  by (simp add: add_usage_def split: option.split prod.split sum.split)

lemma synced_simps [simp]:
  "synced (emit es h) = synced h" "synced (log_h sv lv msg h) = synced h" "synced (set_header k v h) = synced h"
  "synced (add_usage sv env t n h) = synced h" "synced (h\<lparr>h_calls := cs\<rparr>) = synced h"
  by (simp_all add: synced_def)

lemma synced_send [simp]: "fresh h \<or> synced h \<Longrightarrow> synced (send p h)"
  by (auto simp: synced_def fresh_def)

lemma fresh_simps [simp]:
  "fresh (emit es h) = fresh h" "fresh (log_h sv lv msg h) = fresh h" "fresh (set_header k v h) = fresh h"
  "fresh (h\<lparr>h_calls := cs\<rparr>) = fresh h"
  by (simp_all add: fresh_def)

lemma synced_write [simp]:
  "fresh h \<Longrightarrow> synced (writeJSON c v h)" "fresh h \<Longrightarrow> synced (writeError c e i h)" "fresh h \<Longrightarrow> synced (rw_WriteHeader c h)"
  by (auto simp: synced_def fresh_def writeError_def)

lemma guard_fresh:
  "guard_prompt sv env i t prompt h = Inl h' \<Longrightarrow> fresh h \<Longrightarrow> synced h'"
  "guard_prompt sv env i t prompt h = Inr h' \<Longrightarrow> fresh h \<Longrightarrow> fresh h'"
  by (auto simp: guard_prompt_def Let_def split: if_splits)

lemma cw_status: "h_status (cw_dst (fst (cw_hstate cw p))) = h_status (cw_dst cw)"
  using h_status_hw_Write [of "cw_dst cw" p]
  by (cases "hw_Write (cw_dst cw) p") (simp add: countWriter_Write_def)

lemma synced_cw: "synced (cw_dst cw) \<Longrightarrow> synced (cw_dst (fst (cw_hstate cw p)))"
  using status_cw by (metis cw_status synced_def)

lemma synced_ww_Write:
  assumes "synced (ww_dst ww)"
  shows "synced (ww_dst (fst (ww_Write sv t ww p)))"
proof -
  obtain w' cw' st e where fl: "Flush cw_hstate (fst (Window_Write (ww_win ww) p)) \<lparr>cw_dst = ww_dst ww, cw_written = 0\<rparr>
      = (w', cw', st, e)" by (metis prod_cases4)
  have "synced (cw_dst cw')"
    using Flush_dst [of cw_hstate "fst (Window_Write (ww_win ww) p)" "\<lparr>cw_dst = ww_dst ww, cw_written = 0\<rparr>"] fl
      synced_cw [of "\<lparr>cw_dst = ww_dst ww, cw_written = 0\<rparr>"] assms by auto
  with assms show ?thesis by (simp add: ww_Write_def fl Let_def split: option.split)
qed

lemma synced_finish:
  assumes "synced (ww_dst ww)"
  shows "synced (finish_stream sv env i t ww err)"
proof -
  obtain w' cw' st e where dr: "DrainSafe cw_hstate (ww_win ww) \<lparr>cw_dst = ww_dst ww, cw_written = 0\<rparr>
      = (w', cw', st, e)" by (metis prod_cases4)
  have "synced (cw_dst cw')"
    using DrainSafe_dst [of cw_hstate "ww_win ww" "\<lparr>cw_dst = ww_dst ww, cw_written = 0\<rparr>"] dr
      synced_cw [of "\<lparr>cw_dst = ww_dst ww, cw_written = 0\<rparr>"] assms by auto
  with assms show ?thesis by (simp add: finish_stream_def dr Let_def split: option.split)
qed

lemma synced_run_stream:
  assumes "stream_source (e_stream env)" and "fresh h"
  shows "synced (run_stream sv env i t prompt h)"
proof -
  let ?h = "(start_stream i h)\<lparr>h_calls := h_calls h @ [StreamTo prompt]\<rparr>"
  have start: "synced (ww_dst (new_windowWriter sv ?h))"
    using assms(2) by (simp add: new_windowWriter_def start_stream_def)
  have "synced (ww_dst (fst (e_stream env prompt (ww_Write sv t) (new_windowWriter sv ?h))))"
    by (rule stream_source.preserves [where I = "\<lambda>ww. synced (ww_dst ww)", OF assms(1) synced_ww_Write start])
  moreover have "h_calls (start_stream i h) = h_calls h" by (simp add: start_stream_def set_header_def rw_WriteHeader_def)
  ultimately show ?thesis by (simp add: run_stream_def Let_def case_prod_beta synced_finish)
qed

lemma synced_mux:
  assumes "stream_source (e_stream env)" and "rq_path rq \<in> {''/v1/complete'', ''/v1/stream'', ''/healthz''}" and "fresh h"
  shows "synced (mux sv env ctx rq h)"
proof -
  have "synced (handleComplete sv env ctx rq h)"
    using assms(3) by (auto simp: handleComplete_def Let_def dest: guard_fresh split: front.split sum.split)
  moreover have "synced (handleStream sv env ctx rq h)"
    using assms(1,3) by (auto simp: handleStream_def Let_def dest: guard_fresh intro: synced_run_stream split: front.split sum.split)
  ultimately show ?thesis using assms(2,3) by (auto simp: mux_def handleHealth_def)
qed

subsection \<open>Properties\<close>

lemma refused:
  "admit sv env rq ctx h = Inl h' \<Longrightarrow> status_of h = None \<Longrightarrow>
   (\<exists>e. Authenticate (sv_auth sv) (rq_authorization rq) = Inl e) \<or> answer_status sv env rq (h_store h) = 429"
proof -
  assume adm: "admit sv env rq ctx h = Inl h'" and h: "status_of h = None"
  show ?thesis
  proof (cases "Authenticate (sv_auth sv) (rq_authorization rq)")
    case (Inr t)
    note rate = check_rate_status [OF h, of sv env "t_id t"]
    show ?thesis
    proof (cases "check_rate sv env (t_id t) h")
      case (Inl h1)
      with adm rate Inr show ?thesis by (simp add: answer_status_def admit_def split: if_splits)
    next
      case r: (Inr h1)
      with rate have h1: "rate_ok sv env (t_id t) (h_store h)" "h_store h1 = after_rate sv env (t_id t) (h_store h)" "status_of h1 = None"
        by simp_all
      with check_quota_status [OF h1(3), of sv env "t_id t"] adm r Inr show ?thesis
        by (auto simp: answer_status_def admit_def split: if_splits sum.splits)
    qed
  qed simp
qed

lemma admitted:
  "admit sv env rq ctx h = Inr (ctx', tid, h') \<Longrightarrow> \<not> exempt (rq_path rq) \<Longrightarrow>
   \<exists>t. Authenticate (sv_auth sv) (rq_authorization rq) = Inr t \<and> tid = t_id t"
  by (auto simp: admit_def split: sum.splits)

lemma handler_not_limited: "handler_status sv env rq tid st \<noteq> 429"
  by (auto simp: handler_status_def read_prompt_def Let_def split: sum.split if_splits)

text \<open>The update of the request counter that a request is meant to cause.\<close>

definition request_count :: "server \<Rightarrow> 's env \<Rightarrow> request \<Rightarrow> 's \<Rightarrow> event list" where
  "request_count sv env rq store =
     (if exempt (rq_path rq) then []
      else
        (case Authenticate (sv_auth sv) (rq_authorization rq) of
           Inl _ \<Rightarrow> []
         | Inr t \<Rightarrow>
             (let st = answer_status sv env rq store
              in if st = 429 then [] else [RequestsTotal [t_id t, itoa st, rq_path rq]])))"



end
