(* ===== verification/Log_Lines.thy ===== *)
theory Log_Lines
  imports Go_Quote Gateway_Events
begin

text \<open>
  The log on standard output, \<open>internal/logger/logger.go\<close>: one JSON object per line.  A field is a
  JSON value, the time stamp the text \<open>Format\<close> makes of the clock; the filter is \<open>shouldLog\<close> of
  theory \<open>Gateway_Events\<close>.
\<close>

subsection \<open>The logger\<close>

record logger =
  lg_min_level :: level

definition logger_New :: "level \<Rightarrow> logger" where
  "logger_New min_level = \<lparr>lg_min_level = min_level\<rparr>"

text \<open>\<open>omitempty\<close>: a nil or empty map is left out.\<close>

definition log_entry :: "bytes \<Rightarrow> level \<Rightarrow> bytes \<Rightarrow> (bytes \<times> json) list \<Rightarrow> json" where
  "log_entry timestamp lv msg extra =
     JObject
       ([(''timestamp'', JString timestamp), (''level'', JString lv), (''message'', JString msg)] @
        (if extra = [] then [] else [(''fields'', json_map extra)]))"

definition logger_log :: "logger \<Rightarrow> bytes \<Rightarrow> level \<Rightarrow> bytes \<Rightarrow> (bytes \<times> json) list \<Rightarrow> bytes \<Rightarrow> bytes" where
  "logger_log l now lv msg extra stdout =
     (if \<not> shouldLog (lg_min_level l) lv then stdout
      else stdout @ json_encode (log_entry now lv msg extra) @ [NL])"

definition logger_Info :: "logger \<Rightarrow> bytes \<Rightarrow> bytes \<Rightarrow> (bytes \<times> json) list \<Rightarrow> bytes \<Rightarrow> bytes" where
  "logger_Info l now msg extra = logger_log l now LevelInfo msg extra"

definition logger_Warn :: "logger \<Rightarrow> bytes \<Rightarrow> bytes \<Rightarrow> (bytes \<times> json) list \<Rightarrow> bytes \<Rightarrow> bytes" where
  "logger_Warn l now msg extra = logger_log l now LevelWarn msg extra"

definition logger_Error :: "logger \<Rightarrow> bytes \<Rightarrow> bytes \<Rightarrow> (bytes \<times> json) list \<Rightarrow> bytes \<Rightarrow> bytes" where
  "logger_Error l now msg extra = logger_log l now LevelError msg extra"

subsection \<open>Encoded values stand on one line\<close>

lemma escape_rune_line:
  assumes "scalar_rune r"
  shows "NL \<notin> set (escape_rune r)"
proof -
  have r: "0 \<le> r" using assms by (auto simp: scalar_rune_def)
  have "r < 0x20 \<or> r = 0x3C \<or> r = 0x3E \<or> r = 0x26 \<or> r = 0x2028 \<or> r = 0x2029 \<Longrightarrow> NL \<notin> set (hex4 r)"
    using hex_line(1) [of r] r by auto
  moreover have "r = 34 \<or> r = 92 \<Longrightarrow> NL \<noteq> char_of r" by (auto simp: char_of_escaped)
  ultimately show ?thesis
    using encode_rune_line [OF assms] by (auto simp: escape_rune_def)
qed

lemma escape_string_line: "NL \<notin> set (escape_string s)"
proof (induction s rule: escape_string.induct)
  case (2 c cs)
  obtain r rest where d: "decode_rune c cs = (r, rest)" by (cases "decode_rune c cs") auto
  with 2 have "NL \<notin> set (escape_string rest)" by simp
  with d escape_rune_line [OF decode_rune_scalar [OF d]] hex_line(1) [of RuneError] show ?case by auto
qed simp

lemma encode_string_line: "NL \<notin> set (encode_string s)"
  using escape_string_line by (simp add: encode_string_def)

lemma digits_line: "json_digits s = Parsed ds t \<Longrightarrow> NL \<notin> set ds"
  by (auto simp: json_digits_def Let_def is_digit_def byte_val_def dest!: set_takeWhileD split: if_splits)

lemma map_parsed_Parsed: "map_parsed f p = Parsed x t \<longleftrightarrow> (\<exists>y. p = Parsed y t \<and> x = f y)"
  by (cases p) auto

lemma bind_parsed_Parsed: "bind_parsed p f = Parsed x t \<longleftrightarrow> (\<exists>y s. p = Parsed y s \<and> f y s = Parsed x t)"
  by (cases p) auto

lemma frac_line: "json_frac s = Parsed ds t \<Longrightarrow> NL \<notin> set ds"
  by (cases s) (auto simp: json_frac_def map_parsed_Parsed dest: digits_line split: if_splits)

lemma exp_line: "json_exp s = Parsed ds t \<Longrightarrow> NL \<notin> set ds"
  by (auto simp: json_exp_def map_parsed_Parsed dest: digits_line split: if_splits list.splits)

lemma number_line:
  assumes "number_text n"
  shows "NL \<notin> set n"
proof -
  have "json_number (n @ []) = Parsed n []" using assms unfolding number_text_def delimited_def by blast
  then show ?thesis
    by (auto simp: json_number_def bind_parsed_Parsed map_parsed_Parsed Let_def
        dest!: digits_line frac_line exp_line split: if_splits)
qed

lemma commas_line: "list_all (\<lambda>x. NL \<notin> set x) xs \<Longrightarrow> NL \<notin> set (commas xs)"
  by (induction xs rule: commas.induct) auto

lemma json_encode_line: "writable v \<Longrightarrow> NL \<notin> set (json_encode v)"
proof (induction v)
  case (JArray vs)
  then have "NL \<notin> set (commas (map json_encode vs))" by (intro commas_line) (simp add: list_all_iff)
  then show ?case by simp
next
  case (JObject ms)
  then have "NL \<notin> set (commas (map (\<lambda>(k, v). encode_string k @ '':'' @ json_encode v) ms))"
    by (intro commas_line) (fastforce simp: list_all_iff encode_string_line)
  then show ?case by simp
qed (simp_all add: number_line encode_string_line)

subsection \<open>Entries\<close>

definition field_ok :: "bytes \<times> json \<Rightarrow> bool" where
  "field_ok kv \<longleftrightarrow> writable (snd kv) \<and> json_depth (snd kv) \<le> 9998"

lemma entry_ok:
  assumes "list_all field_ok extra"
  shows "writable (log_entry now lv msg extra)" "json_depth (log_entry now lv msg extra) \<le> 10000"
proof -
  have all: "list_all field_ok (sort_key fst extra)" using assms by (simp add: list_all_iff)
  then have "list_all (\<lambda>(k, v). writable v) (sort_key fst extra)"
    by (auto simp: list_all_iff field_ok_def)
  then show "writable (log_entry now lv msg extra)" by (simp add: log_entry_def json_map_def)
  have "list_all field_ok xs \<Longrightarrow> foldr max (map (\<lambda>(k, v). json_depth v) xs) 0 \<le> 9998" for xs
    by (induction xs) (auto simp: field_ok_def)
  from this [OF all] show "json_depth (log_entry now lv msg extra) \<le> 10000" by (simp add: log_entry_def json_map_def)
qed

type_synonym log_call = "bytes \<times> level \<times> bytes \<times> (bytes \<times> json) list"

fun log_all :: "logger \<Rightarrow> log_call list \<Rightarrow> bytes \<Rightarrow> bytes" where
  "log_all l [] out = out"
| "log_all l ((now, lv, msg, extra) # calls) out = log_all l calls (logger_log l now lv msg extra out)"

fun passes :: "logger \<Rightarrow> log_call \<Rightarrow> bool" where
  "passes l (now, lv, msg, extra) = shouldLog (lg_min_level l) lv"

fun call_entry :: "log_call \<Rightarrow> json" where
  "call_entry (now, lv, msg, extra) = log_entry now lv msg extra"

text \<open>
  C22: the log cannot be forged.  Whatever the messages, the keys and the values of the fields,
  the calls whose level passes the filter write one line each, in order, and nothing else
  is written; every line decodes to the entry of its call, up to bytes that are not UTF-8.
\<close>

theorem log_lines_exact:
  assumes "\<forall>(now, lv, msg, extra) \<in> set calls. list_all field_ok extra"
  shows "\<exists>ls. log_all l calls out = out @ concat (map (\<lambda>x. x @ [NL]) ls) \<and> list_all (\<lambda>x. NL \<notin> set x) ls \<and>
    map json_unmarshal ls = map (\<lambda>c. Some (valid_json (call_entry c))) (filter (passes l) calls)"
  using assms
proof (induction calls arbitrary: out)
  case (Cons c calls)
  obtain now lv msg extra where c: "c = (now, lv, msg, extra)" by (cases c) auto
  let ?line = "json_encode (log_entry now lv msg extra)"
  from Cons.prems c have ok: "list_all field_ok extra" by simp
  from Cons.IH Cons.prems obtain ls where ls: "log_all l calls (logger_log l now lv msg extra out) =
      logger_log l now lv msg extra out @ concat (map (\<lambda>x. x @ [NL]) ls)" "list_all (\<lambda>x. NL \<notin> set x) ls"
    "map json_unmarshal ls = map (\<lambda>c. Some (valid_json (call_entry c))) (filter (passes l) calls)"
    by (metis (no_types, lifting) list.set_intros(2))
  show ?case
  proof (cases "shouldLog (lg_min_level l) lv")
    case True
    with ls entry_ok [OF ok] show ?thesis
      by (intro exI [of _ "?line # ls"]) (simp add: c logger_log_def json_encode_line json_unmarshal_encode)
  next
    case False
    with ls show ?thesis by (intro exI [of _ ls]) (simp add: c logger_log_def)
  qed
qed simp

definition sample_calls :: "log_call list" where
  "sample_calls =
     [(''t1'', ''info'', ''hidden'', []),
      (''t2'', ''warn'', ''a'' @ [NL] @ ''b'', [(''error'', JString (''x'' @ [NL, DQUOTE]))])]"

lemma log_lines_exact_witness:
  "\<exists>ls. log_all (logger_New ''warn'') sample_calls [] = [] @ concat (map (\<lambda>x. x @ [NL]) ls) \<and>
     list_all (\<lambda>x. NL \<notin> set x) ls \<and>
     map json_unmarshal ls =
       map (\<lambda>c. Some (valid_json (call_entry c))) (filter (passes (logger_New ''warn'')) sample_calls)"
  by (rule log_lines_exact) (simp add: field_ok_def sample_calls_def)

end
