(* ===== verification/Gateway_Command.thy ===== *)
theory Gateway_Command
  imports Gateway_Startup
begin

text \<open>
  The process, \<open>cmd/gateway/main.go\<close>: start, the goroutine with the listener, the wait for a signal
  or an error, and the shutdown.  The two goroutines are the transitions of one step
  relation; what the operating system and \<open>net/http\<close> do (signals, the end of
  \<open>ListenAndServe\<close>, the outcome of \<open>Shutdown\<close>) is left open, but for the documented order:
  before \<open>Shutdown\<close> is called \<open>ListenAndServe\<close> does not return \<open>ErrServerClosed\<close>.
\<close>

subsection \<open>The server\<close>

record http_server =
  hs_Addr :: string
  hs_ReadTimeout :: int
  hs_WriteTimeout :: int
  hs_IdleTimeout :: int

definition Second :: int where "Second = 1000000000"

definition main_server :: "config \<Rightarrow> http_server" where
  "main_server cfg =
     \<lparr>hs_Addr = cfg_ListenAddr cfg, hs_ReadTimeout = 15 * Second, hs_WriteTimeout = 30 * Second,
      hs_IdleTimeout = 60 * Second\<rparr>"

subsection \<open>The Redis client\<close>

text \<open>
  \<open>New\<close> of \<open>internal/redisclient/client.go\<close>; \<open>ping\<close> is the error, if any, of a ping within three
  seconds over a client with the given options.
\<close>

record redis_options =
  ro_Addr :: string
  ro_Password :: string
  ro_DB :: int
  ro_DialTimeout :: int
  ro_ReadTimeout :: int
  ro_WriteTimeout :: int

definition redisclient_New ::
  "string \<Rightarrow> string \<Rightarrow> int \<Rightarrow> (redis_options \<Rightarrow> int \<Rightarrow> string option) \<Rightarrow> string + redis_options" where
  "redisclient_New addr password db ping =
     (let rdb = \<lparr>ro_Addr = addr, ro_Password = password, ro_DB = db, ro_DialTimeout = 3 * Second,
                 ro_ReadTimeout = 2 * Second, ro_WriteTimeout = 2 * Second\<rparr>
      in case ping rdb (3 * Second) of
           Some e \<Rightarrow> Inl (''redis ping '' @ addr @ '': '' @ e)
         | None \<Rightarrow> Inr rdb)"

subsection \<open>The process\<close>

text \<open>
  The goroutine of the listener: \<open>Failed\<close> once its error is in \<open>errCh\<close>, \<open>Closed\<close> once it has
  closed \<open>errCh\<close> without one.
\<close>

datatype listener = NotStarted | Listening | Failed string | Closed

datatype main_phase = Waiting | ShuttingDown | Exited int | Panicked

record process =
  pr_log :: "event list"
  pr_listener :: listener
  pr_main :: main_phase

definition pr_emit :: "level \<Rightarrow> level \<Rightarrow> string \<Rightarrow> process \<Rightarrow> process" where
  "pr_emit lv l msg p = p\<lparr>pr_log := pr_log p @ log_event lv l msg\<rparr>"

definition main_start ::
  "unicode_tables \<Rightarrow> (string \<Rightarrow> string) \<Rightarrow> (redis_options \<Rightarrow> int \<Rightarrow> string option) \<Rightarrow> read_result \<Rightarrow> cache_outcome \<Rightarrow> fs_setup \<Rightarrow> process" where
  "main_start u environ ping file cache fs =
     (let cfg = Load environ;
          lv = cfg_LogLevel cfg;
          rdb = map_sum id (\<lambda>_. ()) (redisclient_New (cfg_RedisAddr cfg) (cfg_RedisPassword cfg) 0 ping);
          su = gateway_New u cfg lv rdb file cache fs
      in \<lparr>pr_log = log_event lv LevelInfo ''gateway_starting'' @ su_log su,
          pr_listener = NotStarted, pr_main = Waiting\<rparr>)"

definition listen :: "level \<Rightarrow> process \<Rightarrow> process" where
  "listen lv p = pr_emit lv LevelInfo ''gateway_listening'' (p\<lparr>pr_listener := Listening\<rparr>)"

text \<open>The two cases of the \<open>select\<close>; a receive from the closed channel gives a nil error.\<close>

definition on_signal :: "level \<Rightarrow> process \<Rightarrow> process" where
  "on_signal lv p = pr_emit lv LevelInfo ''gateway_shutdown_initiated'' (p\<lparr>pr_main := ShuttingDown\<rparr>)"

definition on_error :: "level \<Rightarrow> string option \<Rightarrow> process \<Rightarrow> process" where
  "on_error lv err p =
     (case err of
        None \<Rightarrow> p\<lparr>pr_main := Panicked\<rparr>
      | Some e \<Rightarrow> (pr_emit lv LevelError ''gateway_fatal_error'' p)\<lparr>pr_main := Exited 1\<rparr>)"

definition on_shutdown :: "level \<Rightarrow> string option \<Rightarrow> process \<Rightarrow> process" where
  "on_shutdown lv err p =
     (let p = (case err of None \<Rightarrow> p | Some e \<Rightarrow> pr_emit lv LevelError ''gateway_shutdown_error'' p)
      in (pr_emit lv LevelInfo ''gateway_stopped'' p)\<lparr>pr_main := Exited 0\<rparr>)"

definition running :: "process \<Rightarrow> bool" where
  "running p \<longleftrightarrow> pr_main p = Waiting \<or> pr_main p = ShuttingDown"

inductive main_step :: "level \<Rightarrow> process \<Rightarrow> process \<Rightarrow> bool" for lv where
  listen: "running p \<Longrightarrow> pr_listener p = NotStarted \<Longrightarrow> main_step lv p (listen lv p)"
| serve_failed: "running p \<Longrightarrow> pr_listener p = Listening \<Longrightarrow> main_step lv p (p\<lparr>pr_listener := Failed e\<rparr>)"
| serve_closed: "pr_main p = ShuttingDown \<Longrightarrow> pr_listener p = Listening \<Longrightarrow> main_step lv p (p\<lparr>pr_listener := Closed\<rparr>)"
| signal: "pr_main p = Waiting \<Longrightarrow> main_step lv p (on_signal lv p)"
| failed: "pr_main p = Waiting \<Longrightarrow> pr_listener p = Failed e \<Longrightarrow> main_step lv p (on_error lv (Some e) p)"
| closed: "pr_main p = Waiting \<Longrightarrow> pr_listener p = Closed \<Longrightarrow> main_step lv p (on_error lv None p)"
| shutdown: "pr_main p = ShuttingDown \<Longrightarrow> main_step lv p (on_shutdown lv err p)"

inductive main_run :: "level \<Rightarrow> process \<Rightarrow> process \<Rightarrow> bool" for lv p where
  start: "main_run lv p p"
| more: "main_run lv p q \<Longrightarrow> main_step lv q r \<Longrightarrow> main_run lv p r"

inductive_simps main_step_exited: "main_step lv p q"

lemma pr_emit_sel [simp]: "pr_listener (pr_emit lv l msg p) = pr_listener p" "pr_main (pr_emit lv l msg p) = pr_main p"
  by (simp_all add: pr_emit_def)

definition process_ok :: "process \<Rightarrow> bool" where
  "process_ok p \<longleftrightarrow>
     (case pr_main p of
        Waiting \<Rightarrow> pr_listener p \<noteq> Closed
      | ShuttingDown \<Rightarrow> True
      | Exited c \<Rightarrow> c = 0 \<or> (c = 1 \<and> (\<exists>e. pr_listener p = Failed e))
      | Panicked \<Rightarrow> False)"

lemma process_ok_step: "main_step lv p q \<Longrightarrow> process_ok p \<Longrightarrow> process_ok q"
  by (induction rule: main_step.induct)
    (auto simp: process_ok_def running_def listen_def on_signal_def on_error_def on_shutdown_def Let_def
      split: main_phase.splits option.splits)

lemma process_ok_run: "main_run lv p q \<Longrightarrow> process_ok p \<Longrightarrow> process_ok q"
  by (induction rule: main_run.induct) (auto dest: process_ok_step)

text \<open>The log only grows, and a process that has not exited can take a step.\<close>

lemma main_step_log: "main_step lv p q \<Longrightarrow> \<exists>es. pr_log q = pr_log p @ es"
  by (induction rule: main_step.induct)
    (auto simp: listen_def on_signal_def on_error_def on_shutdown_def pr_emit_def Let_def split: option.splits)

lemma main_progress: "running p \<Longrightarrow> \<exists>q. main_step lv p q"
  unfolding running_def by (blast intro: main_step.signal main_step.shutdown)

text \<open>
  The process ends in an orderly way or because the listener failed.  In no run does the
  receive from the error channel meet a nil error (which would panic); the process exits
  with 1 only after the listener has failed, with 0 otherwise; after its exit nothing
  happens, and until then it can always go on.
\<close>

theorem process_exits:
  assumes "main_run lv (main_start u environ ping file cache fs) p"
  shows "pr_main p \<noteq> Panicked \<and> (\<forall>c. pr_main p = Exited c \<longrightarrow> c = 0 \<or> (c = 1 \<and> (\<exists>e. pr_listener p = Failed e))) \<and>
    ((\<exists>q. main_step lv p q) \<longleftrightarrow> (\<nexists>c. pr_main p = Exited c))"
proof -
  have "process_ok (main_start u environ ping file cache fs)"
    by (simp add: main_start_def process_ok_def Let_def)
  with process_ok_run [OF assms] have ok: "process_ok p" by blast
  have "\<not> main_step lv p q" if "pr_main p = Exited c" for q c
    using that by (simp add: main_step_exited running_def)
  with ok main_progress [of p lv] show ?thesis
    by (cases "pr_main p") (auto simp: process_ok_def running_def)
qed

lemma process_exits_witness:
  "\<exists>p. main_run LevelInfo (main_start \<lparr>uni_lower = id, uni_upper = id\<rparr> (\<lambda>_. []) (\<lambda>_ _. None) (Inl []) NoCache SetupOK) p \<and>
     pr_main p = Exited 1 \<and> pr_main p \<noteq> Panicked \<and> (\<nexists>q. main_step LevelInfo p q)"
proof -
  define p0 where "p0 = main_start \<lparr>uni_lower = id, uni_upper = id\<rparr> (\<lambda>_. []) (\<lambda>_ _. None) (Inl []) NoCache SetupOK"
  define p1 where "p1 = listen LevelInfo p0"
  define p2 where "p2 = p1\<lparr>pr_listener := Failed ''in use''\<rparr>"
  define p3 where "p3 = on_error LevelInfo (Some ''in use'') p2"
  have m: "pr_main p0 = Waiting" "pr_listener p0 = NotStarted" by (simp_all add: p0_def main_start_def Let_def)
  then have "main_step LevelInfo p0 p1" unfolding p1_def by (intro main_step.listen) (simp_all add: running_def)
  moreover have "pr_main p1 = Waiting" "pr_listener p1 = Listening" using m by (simp_all add: p1_def listen_def)
  then have "main_step LevelInfo p1 p2" "pr_main p2 = Waiting" "pr_listener p2 = Failed ''in use''"
    unfolding p2_def by (auto intro: main_step.serve_failed simp: running_def)
  moreover from this have "main_step LevelInfo p2 p3" unfolding p3_def by (intro main_step.failed)
  moreover have "pr_main p3 = Exited 1" by (simp add: p3_def on_error_def)
  ultimately have "main_run LevelInfo p0 p3" "pr_main p3 = Exited 1"
    by (blast intro: main_run.intros)+
  with process_exits [of LevelInfo "\<lparr>uni_lower = id, uni_upper = id\<rparr>" "\<lambda>_. []" "\<lambda>_ _. None" "Inl []" NoCache SetupOK p3]
  show ?thesis by (intro exI [of _ p3]) (auto simp: p0_def)
qed

end
