(* ===== verification/Gateway_Policy.thy ===== *)
theory Gateway_Policy
  imports Gateway_Startup Gateway_Answers
begin

text \<open>
  The policy of a running gateway, end to end: the server that \<open>New\<close> builds, the watcher that
  follows the policy file, and the decision on a request, stated on the text of the file and
  the direct semantics of its conditions.
\<close>

subsection \<open>The text in force\<close>

text \<open>The text an input of the watcher loads, if any.\<close>

definition loaded_text :: "unicode_tables \<Rightarrow> watch_input \<Rightarrow> bytes option" where
  "loaded_text u i =
     (case i of
        FsEvent ops rd c \<Rightarrow>
          if FsWrite \<in> set ops \<or> FsCreate \<in> set ops
          then (case load u rd of Inl _ \<Rightarrow> None | Inr (_, src) \<Rightarrow> Some src) else None
      | _ \<Rightarrow> None)"

definition text_in_force :: "unicode_tables \<Rightarrow> bytes \<Rightarrow> watch_input list \<Rightarrow> bytes" where
  "text_in_force u src is = last (src # List.map_filter (loaded_text u) is)"

lemma next_bundle_text:
  "bundle_of_source u b src \<Longrightarrow>
   bundle_of_source u (next_bundle u i b) (case loaded_text u i of None \<Rightarrow> src | Some src' \<Rightarrow> src')"
  by (cases i) (auto simp: next_bundle_def loaded_text_def dest: load_source split: sum.split)

lemma fold_text:
  "bundle_of_source u b src \<Longrightarrow> bundle_of_source u (fold (next_bundle u) is b) (text_in_force u src is)"
proof (induction "is" arbitrary: b src)
  case (Cons i "is")
  from Cons.IH [OF next_bundle_text [OF Cons.prems, of i]] show ?case
    by (cases "loaded_text u i") (simp_all add: text_in_force_def)
qed (simp add: text_in_force_def)

lemma NewWatcher_text: "NewWatcher u lv (Inr src) c fs = Inr w \<Longrightarrow> bundle_of_source u (w_bundle w) src"
  by (auto simp: NewWatcher_def load_Inr bundle_of_source_def split: sum.split_asm prod.split_asm)

lemma bundle_of_source_parse:
  "bundle_of_source u b src \<Longrightarrow>
   \<exists>ast. Parse src = Inr ast \<and> b = \<lparr>b_tenant_id = pn_tenant_id ast, b_rules = map (rule_of u) (pn_rules ast)\<rparr>"
  by (auto simp: bundle_of_source_def load_Inr)

subsection \<open>The decision of a policy\<close>

text \<open>The context of an evaluation; without a quota or when Redis fails, the tokens of the day read as zero.\<close>

definition policy_context :: "server \<Rightarrow> 's env \<Rightarrow> string \<Rightarrow> rat \<Rightarrow> 's \<Rightarrow> eval_context" where
  "policy_context sv env tenant_id score store =
     \<lparr>InputRiskScore = Fin score, RequestModel = ''mock-llm-v1'',
      TenantDailyTokens =
        (case sv_quota sv of
           None \<Rightarrow> Fin 0
         | Some q \<Rightarrow>
             (case quota_Total (e_ops env) tenant_id (e_day_total env) (e_link_total env) store of
                Inr tot \<Rightarrow> f64_of_int tot
              | Inl _ \<Rightarrow> Fin 0))\<rparr>"

definition policy_forbids :: "unicode_tables \<Rightarrow> policy_node \<Rightarrow> string \<Rightarrow> eval_context \<Rightarrow> bool" where
  "policy_forbids u ast tenant_id ctx \<longleftrightarrow>
     pn_tenant_id ast = tenant_id \<and>
     (case find (\<lambda>rn. sem_node u (rn_condition rn) ctx) (pn_rules ast) of
        None \<Rightarrow> False
      | Some rn \<Rightarrow> to_upper u (rn_action rn) = ActionBlock)"

lemma policy_blocks_bundle:
  assumes "e_bundle env = Some \<lparr>b_tenant_id = pn_tenant_id ast, b_rules = map (rule_of u) (pn_rules ast)\<rparr>"
  shows "policy_blocks (evalPolicy sv env t score ''mock-llm-v1'' store) \<longleftrightarrow>
    policy_forbids u ast t (policy_context sv env t score store)"
  by (simp add: evalPolicy_def assms policy_context_def policy_forbids_def policy_blocks_def Bundle_Evaluate_def
      Evaluate_compiled no_verdict_def Let_def split: option.split)

text \<open>The gateway with its watcher in the state \<open>w\<close>.\<close>

definition with_watcher :: "startup \<Rightarrow> watcher \<Rightarrow> startup" where
  "with_watcher su w = su\<lparr>su_policy := Some w\<rparr>"

subsection \<open>Property\<close>

text \<open>
  C5: the policy file decides.  Take a gateway that started with a policy file, and any run of
  its watcher.  A prompt that passes authentication, limits and the checks of the request
  is answered with 403 and never reaches the backend when the input scan blocks it, or when
  the text in force (the last version of the file that loaded) names the tenant of the
  request and its first rule whose condition holds has the action BLOCK; otherwise it is sent
  to the backend, once.
\<close>

theorem policy_in_force:
  fixes http :: http_client and env :: "'s env"
  assumes "su = gateway_New u cfg lv rdb (Inr src) cache fs" and "su_policy su = Some w0" and "watch_run u w0 is w"
    and "sv = su_server su" and "env' = request_env (with_watcher su w) http env"
    and "passive_routes (e_other_routes env)" and "rs_sent (h_resp h) = None"
    and "Authenticate DefaultStore (rq_authorization rq) = Inr t"
    and "rate_ok sv env' (t_id t) (h_store h)" and "quota_ok sv env' (t_id t) (after_rate sv env' (t_id t) (h_store h))"
    and "read_prompt sv env' rq = Prompt prompt" and "rq_path rq \<in> {''/v1/complete'', ''/v1/stream''}"
  defines "result \<equiv> Scan (e_log2 env') (e_map_order env') prompt"
  shows "\<exists>ast. Parse (text_in_force u src is) = Inr ast \<and>
    (if Verdict result = VerdictBlock \<or>
        policy_forbids u ast (t_id t)
          (policy_context sv env' (t_id t) (Score result) (after_rate sv env' (t_id t) (h_store h)))
     then h_calls (serve sv env' rq h) = h_calls h \<and> (\<exists>hs. rs_sent (h_resp (serve sv env' rq h)) = Some (403, hs))
     else h_calls (serve sv env' rq h) = h_calls h @
       [if rq_path rq = ''/v1/complete'' then Generate prompt else StreamTo prompt])"
proof -
  have "NewWatcher u lv (Inr src) c fs = Inr w0" if "fst (start_policy u cfg lv (Inr src) c fs) = Some w0" for c
    using that by (auto simp: start_policy_def split: if_splits sum.splits)
  then have "bundle_of_source u (w_bundle w0) src"
    using assms(1,2) NewWatcher_text by (metis gateway_New_sel(5))
  then have "bundle_of_source u (w_bundle w) (text_in_force u src is)"
    unfolding watch_run_bundle [OF assms(3)] by (rule fold_text)
  then obtain ast where ast: "Parse (text_in_force u src is) = Inr ast"
    "w_bundle w = \<lparr>b_tenant_id = pn_tenant_id ast, b_rules = map (rule_of u) (pn_rules ast)\<rparr>"
    using bundle_of_source_parse by blast
  have env: "e_bundle env' = Some \<lparr>b_tenant_id = pn_tenant_id ast, b_rules = map (rule_of u) (pn_rules ast)\<rparr>"
    "passive_routes (e_other_routes env')" "stream_source (e_stream env')"
    using assms(6) by (simp_all add: assms(5) request_env_def with_watcher_def ast(2) adapter.stream_source_axioms)
  have auth: "sv_auth sv = DefaultStore" by (simp add: assms(1,4) gateway_New_sel)
  have "\<not> exempt (rq_path rq)" using assms(12) by (auto simp: exempt_def)
  note dec = assms(8-12) auth this policy_blocks_bundle [OF env(1)] result_def
  have "\<exists>hs. rs_sent (h_resp (serve sv env' rq h)) = Some (answer_status sv env' rq (h_store h), hs)"
    using serve_status [OF env(3) assms(7), of rq sv] assms(12) by (auto simp: status_of_def)
  then show ?thesis
    using dec by (intro exI [of _ ast] conjI [OF ast(1)])
      (auto simp: serve_gate [OF env(3,2)] gate_def answer_status_def handler_status_def Let_def)
qed

text \<open>A gateway without Redis, started on the sample policy, after a write of a file that does not parse.\<close>

definition policy_start :: startup where
  "policy_start = gateway_New no_case (Load (\<lambda>_. [])) LevelInfo (Inl ''refused'')
     (Inr (print_policy sample_policy)) NoCache SetupOK"

definition bad_write :: watch_input where
  "bad_write = FsEvent [FsWrite] (Inr ''policy'') NoCache"

definition policy_env :: "mem_store env" where
  "policy_env = request_env (with_watcher policy_start (watch_iter no_case bad_write sample_watcher)) demo_http demo_stream_env"

definition policy_request :: request where
  "policy_request = demo_request ''/v1/complete''\<lparr>rq_authorization := ''Bearer key-acme-1234''\<rparr>"

lemma policy_start_cfg: "sv_cfg (su_server policy_start) = Load (\<lambda>_. [])"
  by (simp add: policy_start_def gateway_New_sel)

lemma policy_start_watcher: "su_policy policy_start = Some sample_watcher"
  by (simp add: policy_start_def gateway_New_sel start_policy_def start_redis_def Load_def getEnv_def NewWatcher_sample)

lemma policy_prompt: "read_prompt (su_server policy_start) policy_env policy_request = Prompt ''Hi''"
  using demo_decode [of 524288]
  by (simp add: read_prompt_def policy_start_cfg Load_def getEnvInt64_def policy_request_def demo_request_def)

lemma policy_auth: "Authenticate DefaultStore ''Bearer key-acme-1234'' = Inr \<lparr>t_id = ''acme-corp'', t_name = ''Acme Corp''\<rparr>"
  by code_simp

lemma policy_score: "Score (Scan lg ord ''Hi'') = 0"
proof -
  have "\<not> re_test keyword_patterns (runes ''Hi'')" "\<not> re_test structural_patterns (runes ''Hi'')"
    "\<not> re_test boundary_patterns (runes ''Hi'')" "\<not> re_test override_verbs (runes ''Hi'')"
    by code_simp+
  then have "count_matches keyword_patterns ''Hi'' = 0" "count_matches structural_patterns ''Hi'' = 0"
    "count_matches boundary_patterns ''Hi'' = 0" "count_matches override_verbs ''Hi'' = 0"
    using count_matches_pos by (metis gr0I)+
  moreover have "rnd (50 / 100) = 1 / 2" "composite_score (five 0 0 0 0 0) = 0" by code_simp+
  ultimately show ?thesis
    by (simp add: Scan_simps signal_results_def entropy_signal_def keyword_signal_def structural_signal_def
        boundary_signal_def repetition_signal_def match_score_def Let_def)
qed

lemma Parse_sample: "Parse (print_policy sample_policy) = Inr sample_policy"
  by (rule Parse_print [OF wf_sample])

lemma policy_text: "text_in_force no_case (print_policy sample_policy) [bad_write] = print_policy sample_policy"
  by (simp add: text_in_force_def bad_write_def loaded_text_def load_garbage)

text \<open>The score is zero and the tokens of the day are unknown, so the one rule does not hold.\<close>

lemma policy_allows:
  "\<not> policy_forbids no_case sample_policy ''acme-corp'' (policy_context (su_server policy_start) policy_env ''acme-corp'' 0 store)"
proof -
  have "parse_float ''0.5'' = Some (Fin (1 / 2))" "parse_float ''1000'' = Some (Fin 1000)" by code_simp+
  moreover have "sv_quota (su_server policy_start) = None"
    by (simp add: policy_start_def gateway_New_sel start_redis_def Load_def getEnv_def)
  ultimately show ?thesis
    by (simp add: policy_forbids_def sample_policy_def policy_context_def float_field_def)
qed

lemma policy_in_force_witness:
  "h_calls (serve (su_server policy_start) policy_env policy_request demo_state) = h_calls demo_state @ [Generate ''Hi'']"
proof -
  have limits: "sv_limiter (su_server policy_start) = None" "sv_quota (su_server policy_start) = None"
    by (simp_all add: policy_start_def gateway_New_sel start_redis_def Load_def getEnv_def)
  have auth: "Authenticate DefaultStore (rq_authorization policy_request) = Inr \<lparr>t_id = ''acme-corp'', t_name = ''Acme Corp''\<rparr>"
    by (simp add: policy_request_def policy_auth)
  have other: "passive_routes (e_other_routes demo_stream_env)" "rs_sent (h_resp demo_state) = None"
    by (simp_all add: demo_env_def not_found.passive_routes_axioms demo_state_def)
  have path: "rq_path policy_request \<in> {''/v1/complete'', ''/v1/stream''}" by (simp add: policy_request_def demo_request_def)
  have rate: "rate_ok (su_server policy_start) policy_env tid st" "quota_ok (su_server policy_start) policy_env tid st" for tid st
    by (simp_all add: rate_ok_def quota_ok_def limits)
  from policy_in_force [OF policy_start_def policy_start_watcher sample_run [folded bad_write_def] HOL.refl policy_env_def
      other auth rate policy_prompt path]
  show ?thesis
    by (simp add: policy_text Parse_sample policy_score policy_allows demo_scan policy_request_def demo_request_def)
qed

end
