(* ===== verification/Shipped_Policy.thy ===== *)
theory Shipped_Policy
  imports Gateway_Policy
begin

text \<open>
  The policy file of the repository, \<open>configs/dev.policy\<close>, byte by byte, and what it makes of
  a request: the lexer and the parser are evaluated on it.
\<close>

definition dev_policy :: bytes where
  "dev_policy = concat
     [''# Default policy applied to all tenants.'' @ [NL],
      ''# Rules are evaluated in order; the first match wins.'' @ [NL],
      ''#'' @ [NL],
      ''# Available fields:'' @ [NL],
      ''#   input.risk_score      float  composite input scanner score (0.0'' @ [CHR 0xE2] @ [CHR 0x80] @ [CHR 0x93] @ ''1.0)'' @ [NL],
      ''#   tenant.daily_tokens   float  tokens consumed today'' @ [NL],
      ''#   request.model         string model name sent by client'' @ [NL],
      ''#'' @ [NL],
      ''# Actions: BLOCK | TAG | LOG | REDACT'' @ [NL],
      ''# Operators: > < == NOT_IN'' @ [NL],
      [NL],
      ''policy tenant:dev {'' @ [NL],
      [NL],
      ''  # Block requests that the input scanner rated as high-risk.'' @ [NL],
      ''  # The scanner threshold for blocking is 0.60; this rule adds a DSL-level'' @ [NL],
      ''  # check as an explicit policy declaration separate from the scanner code.'' @ [NL],
      ''  rule block_high_risk_input {'' @ [NL],
      ''    when input.risk_score > 0.55'' @ [NL],
      ''    action BLOCK'' @ [NL],
      ''    reason '' @ [DQUOTE] @ ''Input risk score exceeds policy threshold'' @ [DQUOTE] @ [NL],
      ''  }'' @ [NL],
      [NL],
      ''  # Tag requests that look mildly suspicious for audit review.'' @ [NL],
      ''  rule tag_suspicious_input {'' @ [NL],
      ''    when input.risk_score > 0.15'' @ [NL],
      ''    action TAG'' @ [NL],
      ''    reason '' @ [DQUOTE] @ ''Input risk score above soft threshold '' @ [CHR 0xE2] @ [CHR 0x80] @ [CHR 0x94] @ '' flagged for audit'' @ [DQUOTE] @ [NL],
      ''  }'' @ [NL],
      [NL],
      ''  # Block requests that ask for an unapproved model.'' @ [NL],
      ''  # Add models to the allowed list here as they are vetted.'' @ [NL],
      ''  rule restrict_model {'' @ [NL],
      ''    when request.model NOT_IN ['' @ [DQUOTE] @ ''mock-llm-v1'' @ [DQUOTE] @ '', '' @ [DQUOTE] @ ''mock-llm'' @ [DQUOTE] @ '', '' @ [DQUOTE] @ ''gpt-4o-mini'' @ [DQUOTE] @ '']'' @ [NL],
      ''    action BLOCK'' @ [NL],
      ''    reason '' @ [DQUOTE] @ ''Model not approved for this tenant'' @ [DQUOTE] @ [NL],
      ''  }'' @ [NL],
      [NL],
      ''  # Block when the tenant has consumed more than 100 000 tokens today.'' @ [NL],
      ''  rule daily_quota {'' @ [NL],
      ''    when tenant.daily_tokens > 100000'' @ [NL],
      ''    action BLOCK'' @ [NL],
      ''    reason '' @ [DQUOTE] @ ''Daily token quota exceeded'' @ [DQUOTE] @ [NL],
      ''  }'' @ [NL],
      ''}'' @ [NL]]"

definition dev_policy_tree :: policy_node where
  "dev_policy_tree =
     \<lparr>pn_tenant_id = ''dev'',
      pn_rules =
        [\<lparr>rn_name = ''block_high_risk_input'', rn_condition = CompareNode ''input.risk_score'' ''>'' ''0.55'',
          rn_action = ''BLOCK'', rn_reason = ''Input risk score exceeds policy threshold''\<rparr>,
         \<lparr>rn_name = ''tag_suspicious_input'', rn_condition = CompareNode ''input.risk_score'' ''>'' ''0.15'',
          rn_action = ''TAG'', rn_reason = ''Input risk score above soft threshold '' @ [CHR 0xE2, CHR 0x80, CHR 0x94] @
            '' flagged for audit''\<rparr>,
         \<lparr>rn_name = ''restrict_model'',
          rn_condition = NotInNode ''request.model'' [''mock-llm-v1'', ''mock-llm'', ''gpt-4o-mini''],
          rn_action = ''BLOCK'', rn_reason = ''Model not approved for this tenant''\<rparr>,
         \<lparr>rn_name = ''daily_quota'', rn_condition = CompareNode ''tenant.daily_tokens'' ''>'' ''100000'',
          rn_action = ''BLOCK'', rn_reason = ''Daily token quota exceeded''\<rparr>]\<rparr>"

lemma Parse_dev_policy: "Parse dev_policy = Inr dev_policy_tree"
  by code_simp

lemma dev_thresholds:
  "parse_float ''0.55'' = Some (Fin (rnd (55 / 100)))" "parse_float ''0.15'' = Some (Fin (rnd (15 / 100)))"
  "parse_float ''100000'' = Some (Fin 100000)" "rnd (15 / 100) < rnd (55 / 100)"
  by code_simp+

lemma upper_words: "to_upper u ''BLOCK'' = ''BLOCK''" "to_upper u ''TAG'' = ''TAG''"
  by (subst to_upper_ascii, code_simp, code_simp)+

lemma wt_dev_policy: "list_all (wt_rule u) (pn_rules dev_policy_tree)"
  by (simp add: dev_policy_tree_def wt_rule_def known_action_def float_field_def dev_thresholds upper_words
      del: to_upper_ascii)


end
