(* ===== verification/Provider_Errors.thy ===== *)
theory Provider_Errors
  imports Gateway_Answers
begin

text \<open>
  The texts of the adapters' errors, \<open>internal/provider/mock.go\<close> and \<open>openai_compat.go\<close>, and where
  they go: the text of a failed stream is part of the event the client gets.  The texts of
  errors of the JSON decoder and of the network are those of the library (a parameter and
  \<open>ee_text\<close>).
\<close>

subsection \<open>The texts\<close>

fun ww_error_text :: "ww_error \<Rightarrow> string" where
  "ww_error_text StreamAborted = ''stream aborted: unsafe content detected''"
| "ww_error_text (DstError e) = e"

fun adapter_error_text ::
  "string \<Rightarrow> (int \<Rightarrow> bytes \<Rightarrow> string) \<Rightarrow> (ext_error json_error \<Rightarrow> string) \<Rightarrow> ww_error provider_error \<Rightarrow> string" where
  "adapter_error_text name status_text json_text (BuildRequest e) = name @ '': build request: '' @ ee_text e"
| "adapter_error_text name status_text json_text (DoRequest e) = name @ '': do request: '' @ ee_text e"
| "adapter_error_text name status_text json_text (BadStatus st body) = name @ '': provider returned '' @ status_text st body"
| "adapter_error_text name status_text json_text (DecodeResponse e) = name @ '': decode response: '' @ json_text e"
| "adapter_error_text name status_text json_text (BodyRead e) = ee_text e"
| "adapter_error_text name status_text json_text (WriteError e) = ww_error_text e"
| "adapter_error_text name status_text json_text ShortWrite = ''short write''"
| "adapter_error_text name status_text json_text LineTooLong = ''bufio.Scanner: token too long''"

definition mock_error_text :: "(ext_error json_error \<Rightarrow> string) \<Rightarrow> ww_error provider_error \<Rightarrow> string" where
  "mock_error_text = adapter_error_text ''mock'' (\<lambda>st body. itoa st)"

definition oai_error_text :: "(ext_error json_error \<Rightarrow> string) \<Rightarrow> ww_error provider_error \<Rightarrow> string" where
  "oai_error_text = adapter_error_text ''openai_compat'' (\<lambda>st body. itoa st @ '': '' @ body)"

subsection \<open>A failed stream\<close>

lemma send_open:
  "rs_conn (h_resp h) = None \<Longrightarrow> h_body (send p h) = h_body h @ p"
  by (simp add: send_def hw_Write_def http_Write_def Let_def split: prod.split)

lemma start_stream_open [simp]: "rs_conn (h_resp (start_stream i h)) = rs_conn (h_resp h)" "h_body (start_stream i h) = h_body h"
  by (simp_all add: start_stream_def rw_WriteHeader_def http_WriteHeader_def split: option.split)

lemma log_h_open [simp]: "h_resp (log_h sv lv msg h) = h_resp h"
  by (simp add: log_h_def emit_def)

lemma run_stream_failed:
  assumes "\<And>wr w. e_stream env prompt wr w = (w, Some e)" and "\<not> is_deadline e" and "rs_conn (h_resp h) = None"
  shows "h_body (run_stream sv env i t prompt h) = h_body h @ sentinel env ''provider_error'' (Some (e_error_text env e)) i"
proof -
  have "rs_conn (h_resp (log_h sv LevelError ''stream_provider_error''
      ((start_stream i h)\<lparr>h_calls := h_calls (start_stream i h) @ [StreamTo prompt]\<rparr>))) = None"
    using assms(3) by simp
  from send_open [OF this] show ?thesis
    by (simp add: run_stream_def Let_def assms(1,2) finish_stream_def new_windowWriter_def)
qed

lemma plain_itoa: "plain_text (itoa n)"
proof -
  have "list_all is_digit (Go_Strconv.decimal m)" if "0 \<le> m" for m
    using decimal_digits [OF that] by simp
  moreover have "0x20 \<le> byte_val c \<and> byte_val c < 0x7F \<and> byte_val c \<noteq> 0x22 \<and> byte_val c \<noteq> 0x5C" if "is_digit c" for c
  proof -
    have "byte_val c = int (of_char c)" by (simp only: byte_val_def of_nat_of_char)
    with that show ?thesis by (auto simp: is_digit_def less_eq_char_def)
  qed
  ultimately have "plain_text (Go_Strconv.decimal m)" if "0 \<le> m" for m
    using that unfolding plain_text_def by (metis (mono_tags, lifting) list.pred_mono_strong)
  moreover have "plain_text ''-''" by code_simp
  ultimately show ?thesis by (simp add: itoa_def plain_text_def)
qed

subsection \<open>Property\<close>


lemma gate_error_text: "gate sv (env\<lparr>e_error_text := f\<rparr>) rq st = gate sv env rq st"
proof -
  have "read_prompt sv (env\<lparr>e_error_text := f\<rparr>) rq = read_prompt sv env rq"
    "evalPolicy sv (env\<lparr>e_error_text := f\<rparr>) t r m st = evalPolicy sv env t r m st"
    "rate_ok sv (env\<lparr>e_error_text := f\<rparr>) t st = rate_ok sv env t st"
    "quota_ok sv (env\<lparr>e_error_text := f\<rparr>) t st = quota_ok sv env t st"
    "after_rate sv (env\<lparr>e_error_text := f\<rparr>) t st = after_rate sv env t st" for t r m st
    by (simp_all add: read_prompt_def evalPolicy_def rate_ok_def quota_ok_def after_rate_def split: option.split)
  then show ?thesis by (simp add: gate_def Let_def split: sum.split front.split)
qed

definition leaking_response :: http_response where
  "leaking_response = \<lparr>hr_status = 401, hr_reads = [''Ask admin@corp'', ''.com for a key''], hr_error = None\<rparr>"


end
