(* ===== verification/Quota_Race.thy ===== *)
theory Quota_Race
  imports Rate_Limit
begin

text \<open>
  The daily quota under concurrent requests, \<open>internal/ratelimit/quota.go\<close> as the middleware and
  the completion handler of \<open>gateway.go\<close> call it: \<open>Check\<close> before the backend is called, \<open>Add\<close>
  after it has answered.  Between the two other requests of the tenant may check and add.
  The state is the store and the number of requests between their \<open>Check\<close> and their \<open>Add\<close>.
\<close>

subsection \<open>The interleavings\<close>

text \<open>
  At most \<open>c\<close> requests are in flight, and none adds more than \<open>m\<close> tokens.  The answer to an \<open>Add\<close>
  may be lost, before or after it was executed; a check whose answer is lost lets the
  request pass, and is not among these steps.
\<close>

inductive quota_step ::
  "'s redis_ops \<Rightarrow> quota \<Rightarrow> string \<Rightarrow> string \<Rightarrow> nat \<Rightarrow> int \<Rightarrow> 's \<times> nat \<Rightarrow> 's \<times> nat \<Rightarrow> bool"
  for ops q t d c m where
  admitted: "quota_Check ops q t d LinkUp s = Inr (v, True) \<Longrightarrow> n < c \<Longrightarrow> quota_step ops q t d c m (s, n) (s, Suc n)"
| refused: "quota_Check ops q t d LinkUp s = Inr (v, False) \<Longrightarrow> quota_step ops q t d c m (s, n) (s, n)"
| charged: "0 \<le> k \<Longrightarrow> k \<le> m \<Longrightarrow> quota_step ops q t d c m (s, Suc n) (fst (quota_Add ops q t d k lk s), n)"

inductive quota_run ::
  "'s redis_ops \<Rightarrow> quota \<Rightarrow> string \<Rightarrow> string \<Rightarrow> nat \<Rightarrow> int \<Rightarrow> 's \<times> nat \<Rightarrow> 's \<times> nat \<Rightarrow> bool"
  for ops q t d c m x where
  start: "quota_run ops q t d c m x x"
| more: "quota_run ops q t d c m x y \<Longrightarrow> quota_step ops q t d c m y z \<Longrightarrow> quota_run ops q t d c m x z"

inductive_cases quota_stepE: "quota_step ops q t d c m x y"

text \<open>What is used and what the requests in flight can still add.\<close>

definition committed :: "(string \<rightharpoonup> int) \<Rightarrow> string \<Rightarrow> int \<Rightarrow> nat \<Rightarrow> int" where
  "committed counters key m n = counter_val (counters key) + int n * m"

context redis
begin

lemma Add_any:
  assumes "int64_ok (counter_val (counter s (dailyKey t d)) + k)" and "0 \<le> k"
  shows "counter_val (counter s (dailyKey t d)) \<le> counter_val (counter (fst (quota_Add ops q t d k lk s)) (dailyKey t d))"
    "counter_val (counter (fst (quota_Add ops q t d k lk s)) (dailyKey t d)) \<le> counter_val (counter s (dailyKey t d)) + k"
proof -
  obtain s1 where "incrby ops s (dailyKey t d) k = (s1, RInt (counter_val (counter s (dailyKey t d)) + k))"
    "counter s1 = (counter s)(dailyKey t d \<mapsto> counter_val (counter s (dailyKey t d)) + k)"
    using incrby_ok [OF assms(1)] by blast
  then show "counter_val (counter s (dailyKey t d)) \<le> counter_val (counter (fst (quota_Add ops q t d k lk s)) (dailyKey t d))"
    "counter_val (counter (fst (quota_Add ops q t d k lk s)) (dailyKey t d)) \<le> counter_val (counter s (dailyKey t d)) + k"
    using assms(2) by (auto simp: quota_Add_def Let_def expire counter_val_def split: link.split)
qed

lemma committed_step:
  assumes "quota_step ops q t d c m x y" and "0 \<le> m" and "q_limit q + int c * m < 2 ^ 63" and "1 \<le> q_limit q"
    and "0 \<le> counter_val (counter (fst x) (dailyKey t d))" "snd x \<le> c"
    and "committed (counter (fst x)) (dailyKey t d) m (snd x) \<le> q_limit q - 1 + int c * m"
  shows "0 \<le> counter_val (counter (fst y) (dailyKey t d)) \<and> snd y \<le> c \<and>
    committed (counter (fst y)) (dailyKey t d) m (snd y) \<le> q_limit q - 1 + int c * m"
  using assms(1)
proof cases
  case (admitted s v n)
  then have "counter_val (counter s (dailyKey t d)) \<le> q_limit q - 1"
    using assms(4) by (auto simp: quota_Check_val counter_val_def split: option.split_asm)
  moreover have "(int n + 1) * m \<le> int c * m"
    using admitted(4) assms(2) by (intro mult_right_mono) simp_all
  ultimately show ?thesis using admitted assms(5) by (simp add: committed_def algebra_simps)
next
  case (refused s v n)
  then show ?thesis using assms(5-7) by simp
next
  case (charged k s n lk)
  let ?v = "counter_val (counter s (dailyKey t d))"
  have "?v + int n * m + m \<le> q_limit q - 1 + int c * m"
    using charged(1) assms(7) by (simp add: committed_def algebra_simps)
  moreover have "0 \<le> int n * m" using assms(2) by simp
  ultimately have "?v + k < 2 ^ 63" using charged(4) assms(3) by linarith
  then have "int64_ok (?v + k)" using charged(1,3) assms(5) by (simp add: int64_ok_def)
  from Add_any [OF this charged(3), of q lk] charged assms(5-7) show ?thesis
    by (auto simp: committed_def algebra_simps)
qed

lemma committed_run:
  assumes "quota_run ops q t d c m (s, 0) y" and "0 \<le> m" and "q_limit q + int c * m < 2 ^ 63" and "1 \<le> q_limit q"
    and "0 \<le> counter_val (counter s (dailyKey t d))" "counter_val (counter s (dailyKey t d)) < q_limit q"
  shows "0 \<le> counter_val (counter (fst y) (dailyKey t d)) \<and> snd y \<le> c \<and>
    committed (counter (fst y)) (dailyKey t d) m (snd y) \<le> q_limit q - 1 + int c * m"
  using assms(1)
proof (induction rule: quota_run.induct)
  case start
  have "0 \<le> int c * m" using assms(2) by simp
  with assms(5,6) show ?case by (simp add: committed_def)
next
  case (more y z)
  from committed_step [OF more(2) assms(2-4)] more.IH show ?case by blast
qed

text \<open>All checks first, all charges then.\<close>

lemma all_admitted:
  assumes "counter_val (counter s (dailyKey t d)) < q_limit q" and "n \<le> c"
  shows "quota_run ops q t d c m (s, 0) (s, n)"
  using assms(2)
proof (induction n)
  case (Suc n)
  obtain v where "quota_Check ops q t d LinkUp s = Inr (v, True)"
    using assms(1) by (cases "counter s (dailyKey t d)") (auto simp: quota_Check_val counter_val_def)
  from quota_run.more [OF Suc.IH quota_step.admitted [OF this]] Suc.prems show ?case by simp
qed (rule quota_run.start)

lemma all_charged:
  assumes "0 \<le> m"
  shows "quota_run ops q t d c m x (s, n) \<Longrightarrow> 0 \<le> counter_val (counter s (dailyKey t d)) \<Longrightarrow>
    counter_val (counter s (dailyKey t d)) + int n * m < 2 ^ 63 \<Longrightarrow>
    \<exists>s'. quota_run ops q t d c m x (s', 0) \<and>
      counter_val (counter s' (dailyKey t d)) = counter_val (counter s (dailyKey t d)) + int n * m"
proof (induction n arbitrary: s)
  case (Suc n)
  let ?v = "counter_val (counter s (dailyKey t d))"
  have "0 \<le> int n * m" using assms by simp
  moreover have "int (Suc n) * m = int n * m + m" by (simp add: algebra_simps)
  ultimately have "?v + m < 2 ^ 63" using Suc.prems(3) by linarith
  then have "int64_ok (?v + m)" using Suc.prems(2) assms by (simp add: int64_ok_def)
  from quota_Add_ok [OF this, of q] obtain s1 where s1: "fst (quota_Add ops q t d m LinkUp s) = s1"
    "counter s1 = (counter s)(dailyKey t d \<mapsto> ?v + m)" by auto
  from quota_run.more [OF Suc.prems(1) quota_step.charged [OF assms order_refl, where s = s and n = n and lk = LinkUp]] s1(1)
  have "quota_run ops q t d c m x (s1, n)" by simp
  from Suc.IH [OF this] s1(2) Suc.prems(2,3) assms show ?case by (simp add: counter_val_def algebra_simps)
qed auto

end

subsection \<open>Property\<close>

text \<open>
  C11: how far concurrent requests exceed the quota.  With at most \<open>c\<close> completions of a tenant in
  flight, each charging at most \<open>m\<close> tokens, no interleaving of their checks and charges
  brings the total of the day above \<open>limit - 1 + c * m\<close>; and the bound is exact: when one
  token is left, \<open>c\<close> requests that are all checked before the first is charged reach it.
\<close>

theorem concurrent_overshoot:
  assumes "redis ops zset counter ttl" and "0 \<le> m" and "q_limit q + int c * m < 2 ^ 63"
    and "0 \<le> counter_val (counter s (dailyKey t d))" and "counter_val (counter s (dailyKey t d)) < q_limit q"
  shows "(\<forall>s' n. quota_run ops q t d c m (s, 0) (s', n) \<longrightarrow>
      counter_val (counter s' (dailyKey t d)) \<le> q_limit q - 1 + int c * m) \<and>
    (counter_val (counter s (dailyKey t d)) = q_limit q - 1 \<longrightarrow>
      (\<exists>s'. quota_run ops q t d c m (s, 0) (s', 0) \<and>
        counter_val (counter s' (dailyKey t d)) = q_limit q - 1 + int c * m))"
proof (intro conjI allI impI)
  fix s' n
  assume run: "quota_run ops q t d c m (s, 0) (s', n)"
  have "0 \<le> int n * m" using assms(2) by simp
  then show "counter_val (counter s' (dailyKey t d)) \<le> q_limit q - 1 + int c * m"
    using redis.committed_run [OF assms(1) run assms(2,3) _ assms(4,5)] assms(4,5) by (simp add: committed_def)
next
  assume v: "counter_val (counter s (dailyKey t d)) = q_limit q - 1"
  have "quota_run ops q t d c m (s, 0) (s, c)" by (rule redis.all_admitted [OF assms(1,5)]) simp
  from redis.all_charged [OF assms(1,2) this assms(4)] v assms(3)
  show "\<exists>s'. quota_run ops q t d c m (s, 0) (s', 0) \<and>
      counter_val (counter s' (dailyKey t d)) = q_limit q - 1 + int c * m" by simp
qed

lemma concurrent_overshoot_witness:
  "\<exists>s'. quota_run mem_redis \<lparr>q_limit = 1\<rparr> ''dev'' ''2024-01-01'' 10 500 (mem_empty, 0) (s', 0) \<and>
     counter_val (m_counters s' (dailyKey ''dev'' ''2024-01-01'')) = 5000"
  using concurrent_overshoot [OF mem.redis_axioms, of 500 "\<lparr>q_limit = 1\<rparr>" 10 mem_empty "''dev''" "''2024-01-01''"]
  by (simp add: mem_empty_def counter_val_def)

end
