(* ===== verification/Stream_Text.thy ===== *)
theory Stream_Text
  imports Provider Log_Lines
begin

text \<open>
  The text of a stream from the provider's deltas to a reader of the gateway's events:
  \<open>StreamTo\<close> of \<open>internal/provider/openai_compat.go\<close>, read back with \<open>ReadSSEChunks\<close> of
  \<open>internal/streaming/window.go\<close>, for which the adapter writes its events.
\<close>

subsection \<open>Lines and what is read from them\<close>

lemma drop_cr_line: "NL \<notin> set l \<Longrightarrow> NL \<notin> set (drop_cr l)"
  by (auto simp: drop_cr_def dest: in_set_butlastD)

lemma scan_lines_lines: "list_all (\<lambda>l. NL \<notin> set l) (fst (scan_lines s))"
proof (induction s rule: scan_lines.induct)
  case (1 s)
  have "NL \<notin> set (takeWhile (\<lambda>c. c \<noteq> NL) s)" by (auto dest: set_takeWhileD)
  with 1 show ?case
    by (subst scan_lines.simps) (auto simp: Let_def drop_cr_line split: prod.split)
qed

lemma read_lines_lines:
  assumes "list_all (\<lambda>l. NL \<notin> set l) ls" and "list_all (\<lambda>p. NL \<notin> set p) acc"
  shows "list_all (\<lambda>p. NL \<notin> set p) (fst (read_lines collect acc ls e))"
  using assms
proof (induction ls arbitrary: acc)
  case (Cons l ls)
  have "NL \<notin> set (drop (length ''data: '') l)" using Cons.prems(1) by (auto dest: in_set_dropD)
  with Cons show ?case by (simp add: collect_def Let_def)
qed simp

subsection \<open>Deltas\<close>

text \<open>
  Pieces of text that fit the line buffers on both sides; the terminator as a text and a
  carriage return at the end are left out.
\<close>

definition fits :: "bytes \<Rightarrow> bool" where
  "fits d \<longleftrightarrow> d \<noteq> [] \<and> valid_text d = d \<and> d \<noteq> ''[DONE]'' \<and> last d \<noteq> CR \<and> length d + 6 < max_line \<and>
     length (delta_chunk d) < 65000"

lemma delta_chunk_line: "NL \<notin> set (delta_chunk d)"
  unfolding delta_chunk_def by (rule json_encode_line) simp

lemma chunk_payload: "fits d \<Longrightarrow> event_payload (delta_chunk d)"
  using delta_chunk_line by (simp add: fits_def event_payload_chunk)

lemma deltas_chunks: "list_all fits ds \<Longrightarrow> deltas (map delta_chunk ds) = ds"
  by (induction ds) (simp_all add: deltas_def fits_def)

subsection \<open>Property\<close>


text \<open>A list of two items, whose text is not read back.\<close>

definition list_reply :: http_response where
  "list_reply = \<lparr>hr_status = 200,
     hr_reads = [concat (map (\<lambda>d. sse_event (delta_chunk d)) [''1. tea'' @ [NL] @ ''2. milk'', ''.'']) @ sse_done],
     hr_error = None\<rparr>"


end
