(* ===== verification/Spec2Isabelle.thy ===== *)
theory Spec2Isabelle
  imports Gateway_Startup Gateway_Answers Gateway_Error_Events Policy_Cache Mock_Server
    Gateway_Metrics Log_Lines Gateway_Command Gateway_Policy Shipped_Policy Provider_Errors
    Quota_Race Stream_Text
begin

text \<open>
  The LLM guardrail gateway: an HTTP server that authenticates a tenant, limits its requests
  and tokens, scans the prompt, evaluates a policy, forwards the prompt to a model backend
  and scans what the backend streams back.  The development models the Go code under
  \<open>src/internal\<close> function by function and proves what the parts promise and what follows
  for a request as a whole.

  \<^bold>\<open>The program and the theories.\<close>  A request enters \<open>withMiddleware\<close> (\<open>gateway.go\<close>, theory
  \<open>Gateway\<close>), which calls \<open>Authenticate\<close> (\<open>auth.go\<close>, \<open>Tenant_Auth\<close>), \<open>Allow\<close> and \<open>Check\<close>
  (\<open>limiter.go\<close>, \<open>quota.go\<close>, \<open>Rate_Limit\<close>) and then a handler.  Both handlers scan the prompt
  (\<open>scanner.go\<close>, \<open>Input_Scanner\<close>) and evaluate the active bundle of the watcher (\<open>watcher.go\<close>,
  \<open>Policy_Watcher\<close>), which was lexed, parsed and compiled from the policy file (\<open>lexer.go\<close>,
  \<open>parser.go\<close>, \<open>compiler.go\<close>: \<open>Dsl_Lexer\<close>, \<open>Dsl_Parser\<close>, \<open>Dsl_Compiler\<close>).  \<open>handleComplete\<close> calls
  \<open>Generate\<close> of the backend and charges the tokens; \<open>handleStream\<close> passes a writer to
  \<open>StreamTo\<close> (\<open>mock.go\<close>, \<open>openai_compat.go\<close>: \<open>Provider\<close>) that feeds the sliding window
  (\<open>window.go\<close>, \<open>Output_Window\<close>).  \<open>New\<close> builds the server from the environment variables
  (\<open>config.go\<close>, \<open>factory.go\<close>: \<open>Gateway_Config\<close>, \<open>Provider_Factory\<close>, \<open>Gateway_Startup\<close>).  The watcher
  publishes what it loads to the policy cache (\<open>cache/policy.go\<close>: \<open>Policy_Cache\<close>).  Log entries
  and metric updates are a trace (\<open>Gateway_Events\<close>), with the collectors in \<open>Gateway_Metrics\<close>
  (\<open>metrics.go\<close>) and the lines of the log in \<open>Log_Lines\<close> (\<open>logger.go\<close>).  The process with its
  listener and shutdown is \<open>Gateway_Command\<close> (\<open>cmd/gateway\<close>, \<open>redisclient\<close>).  The mock model server
  (\<open>cmd/mockllm\<close>: \<open>Mock_Server\<close>) is the default backend.  The theorems on requests as a whole are
  in \<open>Gateway_Safety\<close>, those on the answers in \<open>Gateway_Answers\<close> and \<open>Gateway_Error_Events\<close>,
  those on the policy of a running gateway in \<open>Gateway_Policy\<close>, and on the policy file of the
  repository (\<open>configs/dev.policy\<close>) in \<open>Shipped_Policy\<close>.  \<open>Provider_Errors\<close> holds the error texts a
  backend reports, \<open>Quota_Race\<close> the interleavings of concurrent requests on the quota, and
  \<open>Stream_Text\<close> the text a client reads back from the events of a stream.

  \<^bold>\<open>The prelude.\<close>  \<open>Go_Base\<close> (bytes, sums as results, prefixes), \<open>Go_Text\<close> (UTF-8, white
  space, letter case), \<open>Go_Strconv\<close> (decimal integers), \<open>Go_Float64\<close> (binary64 as rationals
  with correct rounding, not-a-number and infinities), \<open>Go_Regexp\<close> (the regular expressions
  of the scanners with an executable matcher), \<open>Go_Io\<close> (writers, the line scanner), \<open>Go_Json\<close>
  (the decoder, the encoder and the storing of values into structs), \<open>Go_Quote\<close> (the verb
  \<open>%q\<close>) and \<open>Go_Sha256\<close> (the hash on words of 32 bits).  A string is a list of bytes.  An error is the left part of a sum.  Integers are unbounded
  where the code cannot leave the 64-bit range and wrapped where it can
  (\<open>wrap64\<close> in \<open>Gateway\<close>, \<open>int64_ok\<close> for Redis counters and parsed numbers).

  \<^bold>\<open>Interfaces.\<close>  Six locales carry the contracts the parts rely on: \<open>io_writer\<close> (what a
  \<open>Write\<close> may do; instances are the buffer, the counting writer, the window, the HTTP response
  and the request state), \<open>redis\<close> (the documented effect of the commands; instance: a store in
  memory), \<open>string_store\<close> (the same for the string commands of the policy cache), \<open>stream_source\<close> and \<open>chunk_source\<close> (a backend touches its writer by \<open>Write\<close> only,
  and writes a fixed list of chunks up to the first error; instances: both adapters),
  \<open>passive_routes\<close> (the other routes do not call the backend).

  \<^bold>\<open>What is shown.\<close>  The policy language: lexing and parsing invert printing, the parser
  returns well-formed trees, compiling succeeds exactly on the well-typed policies and the
  closures compute a direct semantics with first match.  The input scan: ranges and
  monotonicity of the score in binary64 arithmetic, which prompts can and must be blocked.
  The output window: what is held back, what is released, that unsafe text that fits the
  window never leaves, that the bound is exact, and that a clean stream is complete.  The
  watcher: the active bundle is always one complete compilation, and the newest good one.
  The limiter: refinement of a sliding window log, the bound on a window, the stored set,
  and the undercounted burst; the quota: its overshoot.  The gateway: the backend is called
  exactly when an abstract decision says so (\<open>gate\<close>), an unsafe text never reaches the
  client of a stream, every request is answered and with which status (\<open>answer_status\<close>), whom
  tokens are charged to, what an aborted stream and an error event look like, and how the
  server behaves without Redis or without a policy.  The policy end to end: when the policy
  file blocks a request, in terms of the text last loaded and the direct semantics of its
  conditions, and what the shipped file decides.  The quota under concurrency: by how much
  interleaved requests can pass the limit.  A stream: which texts lose their new lines on the
  way, and that the text of a provider error is not scanned.  The policy cache: a published policy is
  served back, and where tenants are not kept apart.  The mock server: a prompt survives the
  way through the adapter and back, and an echoed unsafe word is intercepted.  Reports: every
  metric update fits its collector, every admitted request is counted once, a log line cannot
  be forged.  The process: how it exits.

  \<^bold>\<open>Termination.\<close>  Every loop of the modelled code is a total function: structural recursion
  where possible, otherwise a measure on the unread input; there is no fuel.  Only the watch
  loop, which may run for ever, is a step relation (\<open>watch_step\<close>), with runs of any length; it is
  shown to take its inputs up to the one that ends it.  So is the process (\<open>main_step\<close>), whose two
  goroutines interleave.

  \<^bold>\<open>Parameters.\<close>  Redis, the HTTP exchange with the backend, \<open>math.Log2\<close>, the
  iteration order of Go maps, \<open>Sscanf\<close> with a format that is not plain text,
  the texts of the errors of the libraries (the texts the adapters put around them are
  definitions of \<open>Provider_Errors\<close>), the case and print tables of Unicode beyond ASCII, the clock and the
  request id are arguments of the definitions; the theorems hold for all of them, with the
  locales above as the only assumptions.  The client's connection may break after any number
  of bytes.

  \<^bold>\<open>Not modelled.\<close>  The registration of the Prometheus collectors and the metrics page (third-party
  code), the values of time measurements, the fields of the gateway's log entries (the logger
  itself takes any fields), the listener of \<open>net/http\<close> and its timeouts, the sleeps of the mock
  model server, the load test and the test suites.  Concurrency is modelled where state is shared: the limiter's
  script and the counter commands are atomic steps of the store, and the bundle is read
  between steps of the watcher; inside one request the handler is sequential.
\<close>

end
